theory Spec2Isabelle
  imports Main "HOL-Library.Word"
begin

section \<open>The batched-environment driver of \<^verbatim>\<open>src/utils/batched_env.py\<close>\<close>

text \<open>
  The driver is a coordinator (\<^verbatim>\<open>BatchedEnv\<close>) that owns one pipe and one subprocess per
  simulation, and the loop (\<^verbatim>\<open>worker\<close>) that every subprocess runs. The simulation itself,
  the factory that builds it and numpy's random generator are outside the repository:
  they are parameters of the model.

  Every worker talks to its own pipe only and owns its own simulation, so what a worker
  replies depends on nothing but the messages it was sent, in their order. The model
  therefore lets a worker serve a message at the moment the coordinator sends it; the
  reply waits in the pipe until the coordinator receives it. A \<^verbatim>\<open>recv\<close> on a pipe that
  holds no reply never returns (the coordinator keeps the worker's end of every pipe
  open, so it sees no end-of-file either): this is the outcome \<open>Hangs\<close>.
\<close>

subsection \<open>Values that cross a pipe\<close>

text \<open>
  The Python exceptions the code can raise. All of them derive from \<^verbatim>\<open>Exception\<close>, the
  class that the worker's handler catches; \<open>EnvError\<close> is an exception of that class
  raised inside the simulation. (\<^verbatim>\<open>KeyboardInterrupt\<close> and \<^verbatim>\<open>SystemExit\<close>, which the handler
  does not catch, are not modelled.)
\<close>

datatype exn =
  TypeError | ValueError | IndexError | AttributeError | NotImplementedError
  | EnvError string

text \<open>
  The second component of a message \<^verbatim>\<open>(cmd, data)\<close>: \<^verbatim>\<open>None\<close>, an action, an integer seed,
  or the four arguments of \<^verbatim>\<open>monitor\<close>. Observations, rewards, infos, actions and space
  descriptors are values of the simulation, of one type \<open>'v\<close>.
\<close>

datatype 'v data = PyNone | Val 'v | SeedVal int | MonitorArgs bool bool string int

type_synonym 'v msg = "string \<times> 'v data"

text \<open>
  What a worker sends back: the 4-tuple of a step, the observation of a reset, the pair
  of spaces.
\<close>

datatype 'v reply =
  is_StepResult: StepResult 'v 'v bool 'v
  | is_ResetResult: ResetResult 'v
  | SpacesResult 'v 'v

subsection \<open>The simulation, as the worker uses it\<close>

text \<open>
  \<open>'s\<close> is the memory of the worker's process, which holds the simulation. Each method
  returns the new memory or raises. \<open>info_copy\<close> is the \<^verbatim>\<open>copy\<close> method of the info object
  that \<^verbatim>\<open>env.step\<close> returned.
\<close>

record ('s, 'v) simulation =
  env_step :: "'v data \<Rightarrow> 's \<Rightarrow> exn + ('v \<times> 'v \<times> bool \<times> 'v) \<times> 's"
  env_reset :: "'s \<Rightarrow> exn + 'v \<times> 's"
  env_seed :: "'v data \<Rightarrow> 's \<Rightarrow> exn + 's"
  env_render :: "'s \<Rightarrow> exn + 's"
  env_monitor :: "bool \<Rightarrow> bool \<Rightarrow> string \<Rightarrow> int \<Rightarrow> 's \<Rightarrow> exn + 's"
  env_action_space :: "'s \<Rightarrow> 'v"
  env_observation_space :: "'s \<Rightarrow> 'v"
  info_copy :: "'v \<Rightarrow> 's \<Rightarrow> exn + 'v \<times> 's"

text \<open>
  An environment factory (\<^verbatim>\<open>env_fn_wrapper.obj\<close>): the behaviour of the simulation it
  builds, and the memory after building it (or the exception the constructor raises).
\<close>

type_synonym ('s, 'v) env_fn = "('s, 'v) simulation \<times> (exn + 's)"

subsection \<open>The worker loop\<close>

text \<open>
  One pass through the body of \<^verbatim>\<open>while True\<close> for the message \<^verbatim>\<open>(cmd, data)\<close>: the replies
  sent during the pass, and how the pass ends (the loop goes on with a new memory, the
  loop is left by \<^verbatim>\<open>break\<close>, or an exception leaves the \<^verbatim>\<open>try\<close> block). Unpacking the data
  of a \<^verbatim>\<open>monitor\<close> command into four names raises unless the data are the four arguments.
\<close>

datatype 's flow = Next 's | Break | Raised exn

definition worker_iter ::
  "('s, 'v) simulation \<Rightarrow> string \<Rightarrow> 'v data \<Rightarrow> 's \<Rightarrow> 'v reply list \<times> 's flow" where
  "worker_iter env cmd data s =
    (if cmd = ''step'' then
       (case env_step env data s of
          Inl e \<Rightarrow> ([], Raised e)
        | Inr ((ob, reward, done, info), s1) \<Rightarrow>
            (case info_copy env info s1 of
               Inl e \<Rightarrow> ([], Raised e)
             | Inr (total_info, s2) \<Rightarrow>
                 if done then
                   (case env_reset env s2 of
                      Inl e \<Rightarrow> ([], Raised e)
                    | Inr (ob', s3) \<Rightarrow> ([StepResult ob' reward done total_info], Next s3))
                 else ([StepResult ob reward done total_info], Next s2)))
     else if cmd = ''reset'' then
       (case env_reset env s of
          Inl e \<Rightarrow> ([], Raised e)
        | Inr (ob, s1) \<Rightarrow> ([ResetResult ob], Next s1))
     else if cmd = ''close'' then ([], Break)
     else if cmd = ''get_spaces'' then
       ([SpacesResult (env_action_space env s) (env_observation_space env s)], Next s)
     else if cmd = ''monitor'' then
       (case data of
          MonitorArgs is_monitor is_train experiment_dir record_video_every \<Rightarrow>
            (case env_monitor env is_monitor is_train experiment_dir record_video_every s of
               Inl e \<Rightarrow> ([], Raised e)
             | Inr s1 \<Rightarrow> ([], Next s1))
        | _ \<Rightarrow> ([], Raised TypeError))
     else if cmd = ''render'' then
       (case env_render env s of
          Inl e \<Rightarrow> ([], Raised e)
        | Inr s1 \<Rightarrow> ([], Next s1))
     else if cmd = ''seed'' then
       (case env_seed env data s of
          Inl e \<Rightarrow> ([], Raised e)
        | Inr s1 \<Rightarrow> ([], Next s1))
     else ([], Raised NotImplementedError))"

text \<open>
  A subprocess and its pipe, as one value: the simulation's behaviour, whether the
  process still runs (with its memory) or has exited (with the code it gave to \<^verbatim>\<open>exit\<close>,
  0 when \<^verbatim>\<open>worker\<close> returned), whether the worker has closed its end of the pipe, the
  replies sent and not yet received, and every message the coordinator has sent on the
  pipe, oldest first.
\<close>

datatype 's pstate = Running 's | Exited int

record ('s, 'v) subproc =
  env :: "('s, 'v) simulation"
  pstate :: "'s pstate"
  pipe_closed :: bool
  outbox :: "'v reply list"
  sent :: "'v msg list"

text \<open>
  The worker serves one message: a pass of the loop inside \<^verbatim>\<open>try\<close>. After \<^verbatim>\<open>break\<close> the
  function returns; the handler of \<^verbatim>\<open>except Exception\<close> closes the pipe and calls
  \<^verbatim>\<open>exit(-1)\<close>. A process that has exited serves nothing.
\<close>

definition serve :: "'v msg \<Rightarrow> ('s, 'v) subproc \<Rightarrow> ('s, 'v) subproc" where
  "serve m p =
    (case pstate p of
       Exited c \<Rightarrow> p
     | Running s \<Rightarrow>
         (case worker_iter (env p) (fst m) (snd m) s of
            (replies, Next s1) \<Rightarrow> p\<lparr>pstate := Running s1, outbox := outbox p @ replies\<rparr>
          | (replies, Break) \<Rightarrow>
              p\<lparr>pstate := Exited 0, pipe_closed := True, outbox := outbox p @ replies\<rparr>
          | (replies, Raised e) \<Rightarrow>
              p\<lparr>pstate := Exited (- 1), pipe_closed := True, outbox := outbox p @ replies\<rparr>))"

text \<open>
  The start of \<^verbatim>\<open>worker\<close>, inside the same \<^verbatim>\<open>try\<close>: build the simulation and seed it.
\<close>

definition start :: "('s, 'v) env_fn \<Rightarrow> int \<Rightarrow> ('s, 'v) subproc" where
  "start env_fn seed0 =
    (let crashed = \<lparr>env = fst env_fn, pstate = Exited (- 1), pipe_closed = True,
                     outbox = [], sent = []\<rparr>
     in case snd env_fn of
          Inl e \<Rightarrow> crashed
        | Inr s \<Rightarrow>
            (case env_seed (fst env_fn) (SeedVal seed0) s of
               Inl e \<Rightarrow> crashed
             | Inr s1 \<Rightarrow> crashed\<lparr>pstate := Running s1, pipe_closed := False\<rparr>))"

text \<open>\<^verbatim>\<open>worker(pipe, seed, env_fn_wrapper)\<close> run on the messages that arrive on its pipe.\<close>

definition worker :: "('s, 'v) env_fn \<Rightarrow> int \<Rightarrow> 'v msg list \<Rightarrow> ('s, 'v) subproc" where
  "worker env_fn seed0 msgs = foldl (\<lambda>p m. serve m p) (start env_fn seed0) msgs"

text \<open>\<^verbatim>\<open>pipe.send(m)\<close> on the coordinator's end: the message is logged and served.\<close>

definition pipe_send :: "'v msg \<Rightarrow> ('s, 'v) subproc \<Rightarrow> ('s, 'v) subproc" where
  "pipe_send m p = serve m (p\<lparr>sent := sent p @ [m]\<rparr>)"

section \<open>The coordinator\<close>

text \<open>
  How a call of the coordinator ends: it returns a value, it raises, or it never
  returns. Each outcome carries the coordinator's state at that moment.
\<close>

datatype ('r, 'st) outcome =
  is_Returns: Returns (result: 'r) (final: 'st)
  | is_Raises: Raises (raised: exn) (final: 'st)
  | is_Hangs: Hangs (final: 'st)

text \<open>
  The attributes of a \<^verbatim>\<open>BatchedEnv\<close>; \<open>None\<close> is Python's \<^verbatim>\<open>None\<close>, which \<^verbatim>\<open>close\<close> stores
  in every one of them. The entry \<open>i\<close> of \<open>p_to_workers\<close> stands for the pipe to worker
  \<open>i\<close> with the process behind it (\<^verbatim>\<open>_p_to_workers[i]\<close>, \<^verbatim>\<open>_p_to_parents[i]\<close>, \<^verbatim>\<open>_ps[i]\<close>).
  The step counters are a numpy array of \<^verbatim>\<open>dtype=np.int16\<close>: 16-bit words, read as
  signed by \<open>sint\<close>. The last two fields are numpy's, not the object's: \<open>np_random\<close> is
  the stream of numbers that \<^verbatim>\<open>np.random.randint(2**31)\<close> is going to return, and
  \<open>np_shape\<close> gives the shape that numpy sees in a value (\<^verbatim>\<open>np.shape(v)\<close>).
\<close>

record ('s, 'v) batched_env =
  num_envs :: "nat option"
  p_to_workers :: "('s, 'v) subproc list option"
  action_space :: "'v option"
  observation_space :: "'v option"
  step_counters :: "16 word list option"
  np_random :: "nat \<Rightarrow> int"
  np_shape :: "'v \<Rightarrow> nat list"

definition randint :: "(nat \<Rightarrow> int) \<Rightarrow> int \<times> (nat \<Rightarrow> int)" where
  "randint g = (g 0, \<lambda>n. g (Suc n))"

text \<open>
  \<^verbatim>\<open>np.stack\<close>: the rows in their order. numpy refuses an empty list of arrays, and arrays
  that do not all have the same shape.
\<close>

definition same_shape :: "('a \<Rightarrow> nat list) \<Rightarrow> 'a list \<Rightarrow> bool" where
  "same_shape shape xs = list_all (\<lambda>x. shape x = shape (hd xs)) xs"

definition np_stack :: "('a \<Rightarrow> nat list) \<Rightarrow> 'a list \<Rightarrow> exn + 'a list" where
  "np_stack shape xs =
    (if xs = [] then Inl ValueError
     else if same_shape shape xs then Inr xs
     else Inl ValueError)"

text \<open>\<^verbatim>\<open>np.count_nonzero(mask)\<close> on a boolean mask.\<close>

definition count_nonzero :: "bool list \<Rightarrow> nat" where
  "count_nonzero msk = length (filter (\<lambda>b. b) msk)"

text \<open>
  \<^verbatim>\<open>pipe.recv()\<close> for every pipe in turn (the list comprehensions of \<^verbatim>\<open>step\<close> and of
  \<^verbatim>\<open>reset\<close> without a mask): the pipes afterwards, and the replies, or \<open>None\<close> when a pipe
  holds no reply and the call blocks there.
\<close>

fun recv_all :: "('s, 'v) subproc list \<Rightarrow> ('s, 'v) subproc list \<times> 'v reply list option" where
  "recv_all [] = ([], Some [])"
| "recv_all (w # ws) =
    (case outbox w of
       [] \<Rightarrow> (w # ws, None)
     | r # q \<Rightarrow>
         (case recv_all ws of
            (ws', None) \<Rightarrow> (w\<lparr>outbox := q\<rparr> # ws', None)
          | (ws', Some rs) \<Rightarrow> (w\<lparr>outbox := q\<rparr> # ws', Some (r # rs))))"

subsection \<open>Construction\<close>

text \<open>
  One process per factory, each with a seed drawn in turn. Unpacking
  \<^verbatim>\<open>zip(*[Pipe() ...])\<close> into two names raises \<^verbatim>\<open>ValueError\<close> when there is no factory.
\<close>

fun spawn ::
  "('s, 'v) env_fn list \<Rightarrow> (nat \<Rightarrow> int) \<Rightarrow> ('s, 'v) subproc list \<times> (nat \<Rightarrow> int)" where
  "spawn [] g = ([], g)"
| "spawn (env_fn # env_fns) g =
    (case randint g of
       (seed0, g1) \<Rightarrow>
         (case spawn env_fns g1 of (ps, g2) \<Rightarrow> (start env_fn seed0 # ps, g2)))"

definition init ::
  "('s, 'v) env_fn list \<Rightarrow> (nat \<Rightarrow> int) \<Rightarrow> ('v \<Rightarrow> nat list) \<Rightarrow>
   (('s, 'v) batched_env, unit) outcome" where
  "init env_fns g shape =
    (if env_fns = [] then Raises ValueError ()
     else
       (case spawn env_fns g of
          (ps, g1) \<Rightarrow>
            (let w0 = pipe_send (''get_spaces'', PyNone) (hd ps) in
             case outbox w0 of
               [] \<Rightarrow> Hangs ()
             | r # q \<Rightarrow>
                 (case r of
                    SpacesResult a ob \<Rightarrow>
                      Returns
                        \<lparr>num_envs = Some (length env_fns),
                         p_to_workers = Some (w0\<lparr>outbox := q\<rparr> # tl ps),
                         action_space = Some a,
                         observation_space = Some ob,
                         step_counters = Some (replicate (length env_fns) 0),
                         np_random = g1,
                         np_shape = shape\<rparr> ()
                  | _ \<Rightarrow> Raises ValueError ()))))"

subsection \<open>step\<close>

text \<open>
  \<^verbatim>\<open>for pipe, action in zip(self._p_to_workers, actions)\<close>: \<^verbatim>\<open>zip\<close> stops at the shorter
  of the two.
\<close>

fun send_steps :: "('s, 'v) subproc list \<Rightarrow> 'v list \<Rightarrow> ('s, 'v) subproc list" where
  "send_steps (w # ws) (a # as) = pipe_send (''step'', Val a) w # send_steps ws as"
| "send_steps ws as = ws"

text \<open>
  \<^verbatim>\<open>states, rewards, dones, infos = zip(*results)\<close>. Every reply to a step command is a
  4-tuple; with no result at all the unpacking raises. (A reply of another kind cannot
  be waiting in a pipe when \<^verbatim>\<open>step\<close> is called; the model raises for it.) The values of
  \<open>done\<close> are booleans, which numpy stacks as scalars.
\<close>

fun unzip_results :: "'v reply list \<Rightarrow> exn + ('v list \<times> 'v list \<times> bool list \<times> 'v list)" where
  "unzip_results [] = Inl ValueError"
| "unzip_results [StepResult ob r d i] = Inr ([ob], [r], [d], [i])"
| "unzip_results (StepResult ob r d i # rs) =
    (case unzip_results rs of
       Inl e \<Rightarrow> Inl e
     | Inr (obs, rws, ds, is) \<Rightarrow> Inr (ob # obs, r # rws, d # ds, i # is))"
| "unzip_results (_ # rs) = Inl ValueError"

definition step ::
  "'v list \<Rightarrow> ('s, 'v) batched_env \<Rightarrow>
   ('v list \<times> 'v list \<times> bool list \<times> 'v list, ('s, 'v) batched_env) outcome" where
  "step actions be =
    (case p_to_workers be of
       None \<Rightarrow> Raises TypeError be
     | Some ws \<Rightarrow>
         (case recv_all (send_steps ws actions) of
            (ws2, None) \<Rightarrow> Hangs (be\<lparr>p_to_workers := Some ws2\<rparr>)
          | (ws2, Some results) \<Rightarrow>
              (let be2 = be\<lparr>p_to_workers := Some ws2\<rparr> in
               case unzip_results results of
                 Inl e \<Rightarrow> Raises e be2
               | Inr (states, rewards, dones, infos) \<Rightarrow>
                   (case step_counters be2 of
                      None \<Rightarrow> Raises TypeError be2
                    | Some cs \<Rightarrow>
                        (let be3 = be2\<lparr>step_counters := Some (map (\<lambda>c. c + 1) cs)\<rparr> in
                         case np_stack (np_shape be) states of
                           Inl e \<Rightarrow> Raises e be3
                         | Inr st \<Rightarrow>
                             (case np_stack (np_shape be) rewards of
                                Inl e \<Rightarrow> Raises e be3
                              | Inr rw \<Rightarrow>
                                  (case np_stack (\<lambda>d. []) dones of
                                     Inl e \<Rightarrow> Raises e be3
                                   | Inr dn \<Rightarrow> Returns (st, rw, dn, infos) be3)))))))"

subsection \<open>reset\<close>

text \<open>
  \<^verbatim>\<open>self._step_counters[mask] = 0\<close>: numpy raises \<^verbatim>\<open>IndexError\<close> for a boolean mask whose
  length is not the array's.
\<close>

definition set_masked :: "16 word list \<Rightarrow> bool list \<Rightarrow> exn + 16 word list" where
  "set_masked cs msk =
    (if length msk = length cs then Inr (map (\<lambda>(c, m). if m then 0 else c) (zip cs msk))
     else Inl IndexError)"

fun send_resets_masked :: "('s, 'v) subproc list \<Rightarrow> bool list \<Rightarrow> ('s, 'v) subproc list" where
  "send_resets_masked (w # ws) (m # ms) =
    (if m then pipe_send (''reset'', PyNone) w else w) # send_resets_masked ws ms"
| "send_resets_masked ws ms = ws"

fun recv_masked ::
  "('s, 'v) subproc list \<Rightarrow> bool list \<Rightarrow> ('s, 'v) subproc list \<times> 'v reply list option" where
  "recv_masked (w # ws) (m # ms) =
    (if m then
       (case outbox w of
          [] \<Rightarrow> (w # ws, None)
        | r # q \<Rightarrow>
            (case recv_masked ws ms of
               (ws', None) \<Rightarrow> (w\<lparr>outbox := q\<rparr> # ws', None)
             | (ws', Some rs) \<Rightarrow> (w\<lparr>outbox := q\<rparr> # ws', Some (r # rs))))
     else
       (case recv_masked ws ms of (ws', rs) \<Rightarrow> (w # ws', rs)))"
| "recv_masked ws ms = (ws, Some [])"

text \<open>
  The observations that \<^verbatim>\<open>reset\<close> stacks are the replies as received. (Only replies to
  reset commands can be waiting; the model raises for a reply of another kind.)
\<close>

fun reset_observations :: "'v reply list \<Rightarrow> exn + 'v list" where
  "reset_observations [] = Inr []"
| "reset_observations (ResetResult ob # rs) =
    (case reset_observations rs of Inl e \<Rightarrow> Inl e | Inr obs \<Rightarrow> Inr (ob # obs))"
| "reset_observations (_ # rs) = Inl ValueError"

definition stack_replies ::
  "('v \<Rightarrow> nat list) \<Rightarrow> 'st \<Rightarrow> 'v reply list \<Rightarrow> ('v list option, 'st) outcome" where
  "stack_replies shape st rs =
    (case reset_observations rs of
       Inl e \<Rightarrow> Raises e st
     | Inr obs \<Rightarrow>
         (case np_stack shape obs of Inl e \<Rightarrow> Raises e st | Inr a \<Rightarrow> Returns (Some a) st))"

text \<open>The result \<open>None\<close> is Python's \<^verbatim>\<open>None\<close>, \<open>Some obs\<close> the stacked observations.\<close>

definition reset ::
  "bool list option \<Rightarrow> ('s, 'v) batched_env \<Rightarrow> ('v list option, ('s, 'v) batched_env) outcome" where
  "reset mask_opt be =
    (case mask_opt of
       Some msk \<Rightarrow>
         (if count_nonzero msk = 0 then Returns None be
          else
            (case step_counters be of
               None \<Rightarrow> Raises TypeError be
             | Some cs \<Rightarrow>
                 (case set_masked cs msk of
                    Inl e \<Rightarrow> Raises e be
                  | Inr cs1 \<Rightarrow>
                      (let be1 = be\<lparr>step_counters := Some cs1\<rparr> in
                       case p_to_workers be1 of
                         None \<Rightarrow> Raises TypeError be1
                       | Some ws \<Rightarrow>
                           (case recv_masked (send_resets_masked ws msk) msk of
                              (ws2, None) \<Rightarrow> Hangs (be1\<lparr>p_to_workers := Some ws2\<rparr>)
                            | (ws2, Some rs) \<Rightarrow>
                                stack_replies (np_shape be) (be1\<lparr>p_to_workers := Some ws2\<rparr>)
                                  rs)))))
     | None \<Rightarrow>
         (case step_counters be of
            None \<Rightarrow> Raises AttributeError be
          | Some cs \<Rightarrow>
              (let be1 = be\<lparr>step_counters := Some (map (\<lambda>c. 0) cs)\<rparr> in
               case p_to_workers be1 of
                 None \<Rightarrow> Raises TypeError be1
               | Some ws \<Rightarrow>
                   (case recv_all (map (pipe_send (''reset'', PyNone)) ws) of
                      (ws2, None) \<Rightarrow> Hangs (be1\<lparr>p_to_workers := Some ws2\<rparr>)
                    | (ws2, Some rs) \<Rightarrow>
                        stack_replies (np_shape be) (be1\<lparr>p_to_workers := Some ws2\<rparr>) rs))))"

subsection \<open>close, monitor, render, seed\<close>

text \<open>
  \<^verbatim>\<open>close\<close> sends the command to every worker and joins every process. A worker that
  runs serves \<^verbatim>\<open>close\<close> by leaving its loop, and any other has exited already, so every
  \<^verbatim>\<open>join\<close> returns; then every attribute becomes \<^verbatim>\<open>None\<close>.
\<close>

definition close :: "('s, 'v) batched_env \<Rightarrow> (unit, ('s, 'v) batched_env) outcome" where
  "close be =
    (case p_to_workers be of
       None \<Rightarrow> Raises TypeError be
     | Some ws \<Rightarrow>
         (let ws1 = map (pipe_send (''close'', PyNone)) ws in
          if list_ex (\<lambda>w. case pstate w of Running s \<Rightarrow> True | Exited c \<Rightarrow> False) ws1
          then Hangs (be\<lparr>p_to_workers := Some ws1\<rparr>)
          else Returns ()
                 (be\<lparr>num_envs := None, p_to_workers := None, action_space := None,
                    observation_space := None, step_counters := None\<rparr>)))"

definition monitor ::
  "bool \<Rightarrow> bool \<Rightarrow> string \<Rightarrow> int \<Rightarrow> ('s, 'v) batched_env \<Rightarrow>
   (unit, ('s, 'v) batched_env) outcome" where
  "monitor is_monitor is_train experiment_dir record_video_every be =
    (case p_to_workers be of
       None \<Rightarrow> Raises TypeError be
     | Some ws \<Rightarrow>
         Returns ()
           (be\<lparr>p_to_workers :=
                 Some (map (pipe_send (''monitor'',
                   MonitorArgs is_monitor is_train experiment_dir record_video_every)) ws)\<rparr>))"

text \<open>
  Python's indexing of a sequence of length \<open>n\<close>: a negative index counts from the end,
  an index outside \<open>-n \<le> i < n\<close> raises \<^verbatim>\<open>IndexError\<close>.
\<close>

definition py_index :: "nat \<Rightarrow> int \<Rightarrow> exn + nat" where
  "py_index n i =
    (if 0 \<le> i \<and> i < int n then Inr (nat i)
     else if - int n \<le> i \<and> i < 0 then Inr (nat (int n + i))
     else Inl IndexError)"

text \<open>\<^verbatim>\<open>[self._p_to_workers[i] for i in env_ids]\<close>: the positions of the chosen pipes.\<close>

fun pick :: "nat \<Rightarrow> int list \<Rightarrow> exn + nat list" where
  "pick n [] = Inr []"
| "pick n (i # is) =
    (case py_index n i of
       Inl e \<Rightarrow> Inl e
     | Inr k \<Rightarrow> (case pick n is of Inl e \<Rightarrow> Inl e | Inr ks \<Rightarrow> Inr (k # ks)))"

definition send_at :: "'v msg \<Rightarrow> ('s, 'v) subproc list \<Rightarrow> nat \<Rightarrow> ('s, 'v) subproc list" where
  "send_at m ws k = ws[k := pipe_send m (ws ! k)]"

definition render ::
  "int list option \<Rightarrow> ('s, 'v) batched_env \<Rightarrow> (unit, ('s, 'v) batched_env) outcome" where
  "render env_ids be =
    (case env_ids of
       None \<Rightarrow>
         (case p_to_workers be of
            None \<Rightarrow> Raises TypeError be
          | Some ws \<Rightarrow>
              Returns () (be\<lparr>p_to_workers := Some (map (pipe_send (''render'', PyNone)) ws)\<rparr>))
     | Some [] \<Rightarrow> Raises ValueError be
     | Some ids \<Rightarrow>
         (case p_to_workers be of
            None \<Rightarrow> Raises TypeError be
          | Some ws \<Rightarrow>
              (case pick (length ws) ids of
                 Inl e \<Rightarrow> Raises e be
               | Inr ks \<Rightarrow>
                   Returns ()
                     (be\<lparr>p_to_workers := Some (foldl (send_at (''render'', PyNone)) ws ks)\<rparr>))))"

text \<open>
  \<^verbatim>\<open>seed_map\<close> is a dict from worker index to a seed or \<^verbatim>\<open>None\<close>: its items in the dict's
  order. The test \<^verbatim>\<open>if seed_map:\<close> holds for a dict with at least one item. The list
  comprehension of the first branch looks a pipe up and sends on it, item after item, so
  an index out of range raises after the sends before it.
\<close>

definition seed_data :: "int option \<Rightarrow> 'v data" where
  "seed_data s = (case s of None \<Rightarrow> PyNone | Some k \<Rightarrow> SeedVal k)"

fun send_seeds ::
  "(int \<times> int option) list \<Rightarrow> ('s, 'v) subproc list \<Rightarrow> exn + ('s, 'v) subproc list" where
  "send_seeds [] ws = Inr ws"
| "send_seeds ((i, s) # items) ws =
    (case py_index (length ws) i of
       Inl e \<Rightarrow> Inl e
     | Inr k \<Rightarrow> send_seeds items (send_at (''seed'', seed_data s) ws k))"

text \<open>The pipes after the sends that precede the first index out of range.\<close>

fun sent_seeds ::
  "(int \<times> int option) list \<Rightarrow> ('s, 'v) subproc list \<Rightarrow> ('s, 'v) subproc list" where
  "sent_seeds [] ws = ws"
| "sent_seeds ((i, s) # items) ws =
    (case py_index (length ws) i of
       Inl e \<Rightarrow> ws
     | Inr k \<Rightarrow> sent_seeds items (send_at (''seed'', seed_data s) ws k))"

fun send_random_seeds ::
  "('s, 'v) subproc list \<Rightarrow> (nat \<Rightarrow> int) \<Rightarrow> ('s, 'v) subproc list \<times> (nat \<Rightarrow> int)" where
  "send_random_seeds [] g = ([], g)"
| "send_random_seeds (w # ws) g =
    (case randint g of
       (r, g1) \<Rightarrow>
         (case send_random_seeds ws g1 of
            (ws', g2) \<Rightarrow> (pipe_send (''seed'', SeedVal r) w # ws', g2)))"

definition seed ::
  "(int \<times> int option) list option \<Rightarrow> ('s, 'v) batched_env \<Rightarrow>
   (unit, ('s, 'v) batched_env) outcome" where
  "seed seed_map be =
    (if seed_map \<noteq> None \<and> seed_map \<noteq> Some [] then
       (case p_to_workers be of
          None \<Rightarrow> Raises TypeError be
        | Some ws \<Rightarrow>
            (case send_seeds (the seed_map) ws of
               Inl e \<Rightarrow> Raises e (be\<lparr>p_to_workers := Some (sent_seeds (the seed_map) ws)\<rparr>)
             | Inr ws1 \<Rightarrow> Returns () (be\<lparr>p_to_workers := Some ws1\<rparr>)))
     else
       (case p_to_workers be of
          None \<Rightarrow> Raises TypeError be
        | Some ws \<Rightarrow>
            (case send_random_seeds ws (np_random be) of
               (ws1, g1) \<Rightarrow> Returns () (be\<lparr>p_to_workers := Some ws1, np_random := g1\<rparr>))))"

subsection \<open>A simulation to run the model on\<close>

text \<open>
  The counter simulation of the specification's scenario: the observation is the number
  of steps of the episode, and the third step of an episode is its last. Every reward is
  1; the info is always the same value (written 0), and its copy is that value.
\<close>

definition counter_sim :: "(nat, int) simulation" where
  "counter_sim =
    \<lparr>env_step = (\<lambda>d s. Inr ((int (Suc s), 1, Suc s = 3, 0), Suc s)),
     env_reset = (\<lambda>s. Inr (0, 0)),
     env_seed = (\<lambda>d s. Inr s),
     env_render = (\<lambda>s. Inr s),
     env_monitor = (\<lambda>a b c d s. Inr s),
     env_action_space = (\<lambda>s. 2),
     env_observation_space = (\<lambda>s. 1),
     info_copy = (\<lambda>i s. Inr (i, s))\<rparr>"

definition counter_proc :: "nat \<Rightarrow> (nat, int) subproc" where
  "counter_proc n =
    \<lparr>env = counter_sim, pstate = Running n, pipe_closed = False, outbox = [], sent = []\<rparr>"

definition counter_fn :: "(nat, int) env_fn" where
  "counter_fn = (counter_sim, Inr 0)"

definition rng0 :: "nat \<Rightarrow> int" where
  "rng0 n = 1000 + int n"

text \<open>
  The pool of the scenario: two workers, as the constructor leaves them. The values of
  the counter simulation are numbers, of shape \<^verbatim>\<open>()\<close>.
\<close>

definition pool2 :: "(nat, int) batched_env" where
  "pool2 = result (init [counter_fn, counter_fn] rng0 (\<lambda>v. []))"

text \<open>
  \<open>n\<close> calls of \<^verbatim>\<open>step\<close> in a row with the same actions, and no other call between them:
  the coordinator afterwards, or \<open>None\<close> when one of the calls did not return.
\<close>

fun run_steps ::
  "nat \<Rightarrow> 'v list \<Rightarrow> ('s, 'v) batched_env \<Rightarrow> ('s, 'v) batched_env option" where
  "run_steps 0 actions be = Some be"
| "run_steps (Suc n) actions be =
    (case run_steps n actions be of
       None \<Rightarrow> None
     | Some be1 \<Rightarrow> (case step actions be1 of Returns r be2 \<Rightarrow> Some be2 | _ \<Rightarrow> None))"

subsection \<open>States of the coordinator between two calls\<close>

text \<open>
  A coordinator that has been constructed and not closed: at least one pipe, one counter
  per pipe, and no reply waiting in any pipe.
\<close>

definition ready :: "('s, 'v) batched_env \<Rightarrow> bool" where
  "ready be =
    (case p_to_workers be of
       None \<Rightarrow> False
     | Some ws \<Rightarrow>
         ws \<noteq> [] \<and> num_envs be = Some (length ws) \<and> list_all (\<lambda>w. outbox w = []) ws \<and>
         (case step_counters be of None \<Rightarrow> False | Some cs \<Rightarrow> length cs = length ws))"

text \<open>
  The observation that \<^verbatim>\<open>env.reset()\<close> returns in the memory that a worker has now;
  \<open>None\<close> when the worker has exited or the reset raises.
\<close>

definition fresh_observation :: "('s, 'v) subproc \<Rightarrow> 'v option" where
  "fresh_observation w =
    (case pstate w of
       Exited c \<Rightarrow> None
     | Running s \<Rightarrow> (case env_reset (env w) s of Inl e \<Rightarrow> None | Inr (ob, s1) \<Rightarrow> Some ob))"

text \<open>A simulation none of whose methods that \<^verbatim>\<open>step\<close> and \<^verbatim>\<open>reset\<close> use ever raises.\<close>

definition never_raises :: "('s, 'v) simulation \<Rightarrow> bool" where
  "never_raises env0 =
    ((\<forall>d s. \<exists>r. env_step env0 d s = Inr r) \<and> (\<forall>s. \<exists>r. env_reset env0 s = Inr r) \<and>
     (\<forall>i s. \<exists>r. info_copy env0 i s = Inr r))"

text \<open>A worker that runs such a simulation and has no reply waiting in its pipe.\<close>

definition alive :: "('s, 'v) subproc \<Rightarrow> bool" where
  "alive w =
    (never_raises (env w) \<and> outbox w = [] \<and>
     (case pstate w of Running s \<Rightarrow> True | Exited c \<Rightarrow> False))"

text \<open>numpy sees one shape in every value (as it does when the values are all numbers).\<close>

definition uniform_shape :: "('s, 'v) batched_env \<Rightarrow> bool" where
  "uniform_shape be = (\<forall>x y. np_shape be x = np_shape be y)"

subsection \<open>Python objects in a worker's memory\<close>

text \<open>
  For what \<^verbatim>\<open>info.copy()\<close> shares with the simulation, the memory of a worker is a store
  of objects: a value is an integer or a reference to a dict or a list in the store.
\<close>

datatype pyval = PInt int | PRef nat

datatype pyobj = PDict "(string \<times> pyval) list" | PList "pyval list"

text \<open>
  The store, the next free address, and the attributes of a simulation that keeps the
  actions of the running episode in a list \<^verbatim>\<open>self.log\<close> (at address \<open>log_at\<close>) and their
  number in \<^verbatim>\<open>self.t\<close>.
\<close>

record memory =
  objs :: "nat \<Rightarrow> pyobj option"
  fresh :: nat
  log_at :: nat
  t :: nat

definition alloc :: "pyobj \<Rightarrow> memory \<Rightarrow> nat \<times> memory" where
  "alloc ob m = (fresh m, m\<lparr>objs := (objs m)(fresh m \<mapsto> ob), fresh := Suc (fresh m)\<rparr>)"

text \<open>
  \<^verbatim>\<open>dict.copy()\<close> and \<^verbatim>\<open>list.copy()\<close>: a new object with the same items. The items are not
  copied: a reference in the copy is the reference in the original. An integer has no
  \<^verbatim>\<open>copy\<close> method.
\<close>

definition shallow_copy :: "pyval \<Rightarrow> memory \<Rightarrow> exn + pyval \<times> memory" where
  "shallow_copy v m =
    (case v of
       PInt n \<Rightarrow> Inl AttributeError
     | PRef a \<Rightarrow>
         (case objs m a of
            None \<Rightarrow> Inl AttributeError
          | Some ob \<Rightarrow> (case alloc ob m of (a', m') \<Rightarrow> Inr (PRef a', m'))))"

text \<open>
  What \<^verbatim>\<open>pipe.send\<close> writes for a value: the value with every reference followed in the
  store as it is at the moment of the send. The first argument bounds the depth
  (\<open>None\<close> beyond it).
\<close>

datatype wire = WInt int | WList "wire list" | WDict "(string \<times> wire) list"

fun pickle :: "nat \<Rightarrow> (nat \<Rightarrow> pyobj option) \<Rightarrow> pyval \<Rightarrow> wire option" where
  "pickle k h (PInt n) = Some (WInt n)"
| "pickle 0 h (PRef a) = None"
| "pickle (Suc k) h (PRef a) =
    (case h a of
       None \<Rightarrow> None
     | Some (PList xs) \<Rightarrow> map_option WList (those (map (pickle k h) xs))
     | Some (PDict kvs) \<Rightarrow>
         map_option WDict
           (those (map (\<lambda>kv. map_option (Pair (fst kv)) (pickle k h (snd kv))) kvs)))"

text \<open>
  The simulation: \<^verbatim>\<open>step(a)\<close> appends \<open>a\<close> to \<^verbatim>\<open>self.log\<close> and returns the info
  \<^verbatim>\<open>{'log': self.log, 't': self.t}\<close>, a new dict that refers to the simulation's own list;
  the second step of an episode is its last. \<^verbatim>\<open>reset()\<close> empties the list in place.
\<close>

definition logging_sim :: "(memory, pyval) simulation" where
  "logging_sim =
    \<lparr>env_step = (\<lambda>d m.
        case d of
          Val a \<Rightarrow>
            (case objs m (log_at m) of
               Some (PList xs) \<Rightarrow>
                 (let m1 = m\<lparr>objs := (objs m)(log_at m \<mapsto> PList (xs @ [a])), t := Suc (t m)\<rparr> in
                  case alloc (PDict [(''log'', PRef (log_at m1)), (''t'', PInt (int (t m1)))]) m1 of
                    (i, m2) \<Rightarrow> Inr ((PInt (int (t m2)), PInt 1, t m2 = 2, PRef i), m2))
             | _ \<Rightarrow> Inl AttributeError)
        | _ \<Rightarrow> Inl TypeError),
     env_reset = (\<lambda>m. Inr (PInt 0, m\<lparr>objs := (objs m)(log_at m \<mapsto> PList []), t := 0\<rparr>)),
     env_seed = (\<lambda>d m. Inr m),
     env_render = (\<lambda>m. Inr m),
     env_monitor = (\<lambda>a b c d m. Inr m),
     env_action_space = (\<lambda>m. PInt 2),
     env_observation_space = (\<lambda>m. PInt 1),
     info_copy = shallow_copy\<rparr>"

text \<open>The memory when the simulation has been built, and after a first step with action 7.\<close>

definition mem0 :: memory where
  "mem0 = \<lparr>objs = Map.empty(0 \<mapsto> PList []), fresh = 1, log_at = 0, t = 0\<rparr>"

definition mem1 :: memory where
  "mem1 =
    (case worker_iter logging_sim ''step'' (Val (PInt 7)) mem0 of
       (replies, Next m) \<Rightarrow> m
     | _ \<Rightarrow> mem0)"

text \<open>
  The info of a step as \<^verbatim>\<open>env.step\<close> returned it, read in the memory at that moment, and
  the info of the same step as the worker's \<^verbatim>\<open>pipe.send\<close> writes it, read in the memory
  at the moment of the send.
\<close>

definition stepped_info ::
  "nat \<Rightarrow> (memory, pyval) simulation \<Rightarrow> pyval data \<Rightarrow> memory \<Rightarrow> wire option" where
  "stepped_info k env0 d m =
    (case env_step env0 d m of
       Inl e \<Rightarrow> None
     | Inr ((ob, reward, done, info), m1) \<Rightarrow> pickle k (objs m1) info)"

definition sent_info ::
  "nat \<Rightarrow> (memory, pyval) simulation \<Rightarrow> pyval data \<Rightarrow> memory \<Rightarrow> wire option" where
  "sent_info k env0 d m =
    (case worker_iter env0 ''step'' d m of
       ([StepResult ob reward done total_info], Next m1) \<Rightarrow> pickle k (objs m1) total_info
     | _ \<Rightarrow> None)"

subsection \<open>Sequences of calls\<close>

text \<open>
  A sequence of calls of \<^verbatim>\<open>step\<close> and \<^verbatim>\<open>reset\<close>: the coordinator after them, or \<open>None\<close> when
  one of them did not return.
\<close>

datatype 'v call = Step "'v list" | Reset "bool list option"

fun run_calls ::
  "'v call list \<Rightarrow> ('s, 'v) batched_env \<Rightarrow> ('s, 'v) batched_env option" where
  "run_calls [] be = Some be"
| "run_calls (Step actions # calls) be =
    (case step actions be of Returns r be1 \<Rightarrow> run_calls calls be1 | _ \<Rightarrow> None)"
| "run_calls (Reset msk # calls) be =
    (case reset msk be of Returns r be1 \<Rightarrow> run_calls calls be1 | _ \<Rightarrow> None)"

text \<open>
  The number that the specification compares a step counter with: the calls of \<^verbatim>\<open>step\<close>
  since the last \<^verbatim>\<open>reset\<close> that included worker \<open>i\<close>, after the calls, when it was \<open>n\<close>
  before them. This definition follows the specification's words, not the code.
\<close>

fun steps_since_reset :: "nat \<Rightarrow> 'v call list \<Rightarrow> nat \<Rightarrow> nat" where
  "steps_since_reset i [] n = n"
| "steps_since_reset i (Step actions # calls) n = steps_since_reset i calls (Suc n)"
| "steps_since_reset i (Reset None # calls) n = steps_since_reset i calls 0"
| "steps_since_reset i (Reset (Some msk) # calls) n =
    steps_since_reset i calls (if i < length msk \<and> msk ! i then 0 else n)"

section \<open>Properties of the worker\<close>

lemma worker_iter_unknown:
  "cmd \<notin> set [''step'', ''reset'', ''close'', ''get_spaces'', ''monitor'', ''render'', ''seed'']
   \<Longrightarrow> worker_iter env0 cmd data s = ([], Raised NotImplementedError)"
  by (simp add: worker_iter_def)

lemma worker_iter_raised_silent:
  "worker_iter env0 cmd data s = (replies, Raised e) \<Longrightarrow> replies = []"
  by (auto simp: worker_iter_def split: if_splits sum.splits prod.splits data.splits)

lemma worker_iter_one_reply: "length (fst (worker_iter env0 cmd d s)) \<le> 1"
  by (simp add: worker_iter_def split: sum.splits prod.splits data.splits)

lemma worker_iter_silent:
  "cmd \<in> {''seed'', ''render'', ''monitor'', ''close''} \<Longrightarrow> fst (worker_iter env0 cmd d s) = []"
  by (auto simp: worker_iter_def split: sum.splits prod.splits data.splits)

lemma serve_exited: "pstate p = Exited c \<Longrightarrow> serve m p = p"
  by (simp add: serve_def)

lemma foldl_serve_exited: "pstate p = Exited c \<Longrightarrow> foldl (\<lambda>p m. serve m p) p ms = p"
  by (induction ms) (simp_all add: serve_exited)

lemma serve_sent: "serve m (p\<lparr>sent := x\<rparr>) = (serve m p)\<lparr>sent := x\<rparr>"
  by (simp add: serve_def split: pstate.splits prod.splits flow.splits)

lemma sent_pipe_send: "sent (pipe_send m p) = sent p @ [m]"
  by (simp add: pipe_send_def serve_def split: pstate.splits prod.splits flow.splits)

lemma env_pipe_send: "env (pipe_send m p) = env p"
  by (simp add: pipe_send_def serve_def split: pstate.splits prod.splits flow.splits)

lemma outbox_pipe_send_le:
  assumes "outbox w = []"
  shows "length (outbox (pipe_send m w)) \<le> 1"
proof (cases "pstate w")
  case (Running s)
  obtain rs f where w: "worker_iter (env w) (fst m) (snd m) s = (rs, f)"
    by (cases "worker_iter (env w) (fst m) (snd m) s")
  with worker_iter_one_reply [of "env w" "fst m" "snd m" s] have "length rs \<le> 1" by simp
  with w Running assms show ?thesis
    by (cases f) (simp_all add: pipe_send_def serve_def)
next
  case (Exited c)
  with assms show ?thesis by (simp add: pipe_send_def serve_def)
qed

lemma outbox_pipe_send_silent:
  assumes "cmd \<in> {''seed'', ''render'', ''monitor'', ''close''}"
  shows "outbox (pipe_send (cmd, d) w) = outbox w"
proof (cases "pstate w")
  case (Running s)
  obtain rs f where w: "worker_iter (env w) cmd d s = (rs, f)"
    by (cases "worker_iter (env w) cmd d s")
  with worker_iter_silent [OF assms, of "env w" d s] have "rs = []" by simp
  with w Running show ?thesis
    by (cases f) (simp_all add: pipe_send_def serve_def)
next
  case (Exited c)
  then show ?thesis by (simp add: pipe_send_def serve_def)
qed

lemma outbox_pipe_send_step:
  "outbox w = [] \<Longrightarrow> list_all is_StepResult (outbox (pipe_send (''step'', d) w))"
  by (auto simp: pipe_send_def serve_def worker_iter_def
      split: pstate.splits prod.splits flow.splits sum.splits if_splits)

lemma sent_start: "sent (start env_fn seed0) = []"
  by (simp add: start_def Let_def split: sum.splits)

lemma outbox_start: "outbox (start env_fn seed0) = []"
  by (simp add: start_def Let_def split: sum.splits)

text \<open>
  The pipe of the model, on which every message is served when it is sent, holds what
  \<^verbatim>\<open>worker\<close> produces when it is run on the same messages.
\<close>

lemma worker_pipe_sends:
  "foldl (\<lambda>p m. pipe_send m p) p msgs =
     (foldl (\<lambda>p m. serve m p) p msgs)\<lparr>sent := sent p @ msgs\<rparr>"
proof (induction msgs arbitrary: p)
  case Nil
  show ?case by simp
next
  case (Cons m msgs)
  have "foldl (\<lambda>p m. serve m p) (serve m p\<lparr>sent := sent p @ [m]\<rparr>) msgs
        = (foldl (\<lambda>p m. serve m p) (serve m p) msgs)\<lparr>sent := sent p @ [m]\<rparr>" for x
    by (induction msgs arbitrary: p rule: rev_induct) (simp_all add: serve_sent)
  then show ?case
    using Cons [of "pipe_send m p"]
    by (simp add: sent_pipe_send) (simp add: pipe_send_def serve_sent)
qed

lemma worker_is_pipe_sends:
  "foldl (\<lambda>p m. pipe_send m p) (start env_fn seed0) msgs = (worker env_fn seed0 msgs)\<lparr>sent := msgs\<rparr>"
  using worker_pipe_sends [of "start env_fn seed0" msgs]
  by (simp add: worker_def sent_start)

text \<open>
  Claim C1. A worker that runs serves a step command whose \<^verbatim>\<open>env.step\<close> and \<^verbatim>\<open>info.copy()\<close>
  succeed by sending exactly one \<open>StepResult\<close>. When the step yields \<open>done\<close>, the
  observation in it is the one that the worker's own \<^verbatim>\<open>env.reset()\<close> returned afterwards,
  not the one of the step; when it does not, the observation is the step's, unchanged.
  Reward, \<open>done\<close> and the copied info are the step's in both cases.
\<close>

theorem step_reply_is_post_reset_observation:
  assumes run: "pstate p = Running s"
    and stp: "env_step (env p) data s = Inr ((ob, reward, done, info), s1)"
    and cpy: "info_copy (env p) info s1 = Inr (total_info, s2)"
    and rst: "done \<longrightarrow> env_reset (env p) s2 = Inr (ob0, s3)"
  shows "outbox (pipe_send (''step'', data) p) =
           outbox p @ [StepResult (if done then ob0 else ob) reward done total_info]
         \<and> pstate (pipe_send (''step'', data) p) = Running (if done then s3 else s2)"
proof (cases "done")
  case True
  with rst have "env_reset (env p) s2 = Inr (ob0, s3)" by simp
  with run stp cpy True show ?thesis
    by (simp add: pipe_send_def serve_def worker_iter_def)
next
  case False
  with run stp cpy show ?thesis
    by (simp add: pipe_send_def serve_def worker_iter_def)
qed

text \<open>
  On the counter simulation: the third step of an episode is answered with observation 0
  (the reset's), the second with observation 2 (the step's).
\<close>

theorem step_reply_is_post_reset_observation_witness:
  "outbox (pipe_send (''step'', Val 0) (counter_proc 2)) = [StepResult 0 1 True 0]
   \<and> pstate (pipe_send (''step'', Val 0) (counter_proc 2)) = Running 0
   \<and> outbox (pipe_send (''step'', Val 0) (counter_proc 1)) = [StepResult 2 1 False 0]"
  using step_reply_is_post_reset_observation
          [of "counter_proc 2" 2 "Val 0" 3 1 True 0 3 0 3 0 0]
        step_reply_is_post_reset_observation
          [of "counter_proc 1" 1 "Val 0" 2 1 False 0 2 0 2 0 0]
  by (simp add: counter_proc_def counter_sim_def)

text \<open>
  Claim C8. When the pass of the loop for a command ends with an exception, or the
  command's tag is none of the seven the loop knows, the worker has sent no reply for the
  command, has closed its end of the pipe and has exited with code -1 (not the 0 of a
  \<^verbatim>\<open>close\<close>); whatever messages follow on the pipe, it sends nothing more.
\<close>

theorem worker_exception_is_fatal:
  assumes run: "pstate p = Running s"
    and bad: "snd (worker_iter (env p) cmd data s) = Raised e \<or>
              cmd \<notin> set [''step'', ''reset'', ''close'', ''get_spaces'', ''monitor'',
                          ''render'', ''seed'']"
  shows "outbox (foldl (\<lambda>p m. serve m p) p ((cmd, data) # rest)) = outbox p
         \<and> pipe_closed (foldl (\<lambda>p m. serve m p) p ((cmd, data) # rest))
         \<and> pstate (foldl (\<lambda>p m. serve m p) p ((cmd, data) # rest)) = Exited (- 1)"
proof -
  from bad obtain e' where r: "snd (worker_iter (env p) cmd data s) = Raised e'"
    using worker_iter_unknown [of cmd "env p" data s] by auto
  then obtain replies where w: "worker_iter (env p) cmd data s = (replies, Raised e')"
    by (cases "worker_iter (env p) cmd data s") simp
  then have "replies = []" by (rule worker_iter_raised_silent)
  with w run have s1: "serve (cmd, data) p = p\<lparr>pstate := Exited (- 1), pipe_closed := True\<rparr>"
    by (simp add: serve_def)
  have "foldl (\<lambda>p m. serve m p) p ((cmd, data) # rest) = serve (cmd, data) p"
    using foldl_serve_exited [of "serve (cmd, data) p" "- 1" rest] s1 by simp
  with s1 show ?thesis by simp
qed

theorem worker_exception_is_fatal_witness:
  "outbox (foldl (\<lambda>p m. serve m p) (counter_proc 0) [(''bogus'', PyNone), (''step'', Val 0)]) = []
   \<and> pipe_closed
       (foldl (\<lambda>p m. serve m p) (counter_proc 0) [(''bogus'', PyNone), (''step'', Val 0)])
   \<and> pstate (foldl (\<lambda>p m. serve m p) (counter_proc 0) [(''bogus'', PyNone), (''step'', Val 0)])
       = Exited (- 1)"
  using worker_exception_is_fatal
          [of "counter_proc 0" 0 "''bogus''" PyNone TypeError "[(''step'', Val 0)]"]
  by (simp add: counter_proc_def)

section \<open>Properties of the coordinator\<close>

subsection \<open>Receiving from every pipe\<close>

lemma sent_recv_all: "map sent (fst (recv_all ws)) = map sent ws"
  by (induction ws) (auto split: list.splits prod.splits option.splits)

lemma recv_all_Some:
  "recv_all ws = (ws', Some rs) \<Longrightarrow> rs = map (\<lambda>w. hd (outbox w)) ws \<and> list_all (\<lambda>w. outbox w \<noteq> []) ws
     \<and> ws' = map (\<lambda>w. w\<lparr>outbox := tl (outbox w)\<rparr>) ws"
  by (induction ws arbitrary: ws' rs) (auto split: list.splits prod.splits option.splits)

lemma recv_all_starved:
  "list_ex (\<lambda>w. outbox w = []) ws \<Longrightarrow> snd (recv_all ws) = None"
  by (induction ws) (auto split: list.splits prod.splits option.splits)

lemma tl_outbox_empty:
  "length (outbox w) \<le> 1 \<Longrightarrow> tl (outbox w) = []"
  by (cases "outbox w") auto

lemma recv_all_drains:
  assumes "recv_all ws = (ws', Some rs)" and "list_all (\<lambda>w. length (outbox w) \<le> 1) ws"
  shows "list_all (\<lambda>w. outbox w = []) ws' \<and> length ws' = length ws"
proof -
  from recv_all_Some [OF assms(1)] have "ws' = map (\<lambda>w. w\<lparr>outbox := tl (outbox w)\<rparr>) ws"
    by simp
  with assms(2) show ?thesis
    by (simp add: list_all_iff tl_outbox_empty)
qed

lemma map_pipe_send_le:
  "list_all (\<lambda>w. outbox w = []) ws
   \<Longrightarrow> list_all (\<lambda>w. length (outbox w) \<le> 1) (map (pipe_send m) ws)"
  using outbox_pipe_send_le [of _ m] by (auto simp: list_all_iff)

lemma sent_map_pipe_send:
  "map sent (map (pipe_send m) ws) = map (\<lambda>w. sent w @ [m]) ws"
  by (simp add: sent_pipe_send)

subsection \<open>Construction\<close>

text \<open>
  When the constructor returns, the coordinator is \<open>ready\<close>: it has one worker and one
  counter, at zero, per factory, and no reply waits in any pipe.
\<close>

lemma spawn_props:
  "spawn env_fns g = (ps, g1) \<Longrightarrow> length ps = length env_fns \<and> list_all (\<lambda>w. outbox w = []) ps"
  by (induction env_fns arbitrary: g ps g1) (auto simp: outbox_start split: prod.splits)

lemma init_ready:
  assumes "init env_fns g shape = Returns be u"
  shows "ready be \<and> num_envs be = Some (length env_fns)
       \<and> step_counters be = Some (replicate (length env_fns) 0)"
proof -
  from assms have ne: "env_fns \<noteq> []" by (auto simp: init_def split: if_splits)
  obtain ps g1 where sp: "spawn env_fns g = (ps, g1)" by (cases "spawn env_fns g")
  from spawn_props [OF sp] have len: "length ps = length env_fns"
    and q: "list_all (\<lambda>w. outbox w = []) ps" by simp_all
  from ne len obtain p ps' where ps: "ps = p # ps'" by (cases ps) auto
  with q have qp: "outbox p = []" and qs: "list_all (\<lambda>w. outbox w = []) ps'" by simp_all
  from outbox_pipe_send_le [OF qp, of "(''get_spaces'', PyNone)"]
  have le: "length (outbox (pipe_send (''get_spaces'', PyNone) p)) \<le> 1" .
  show ?thesis
    using assms ne sp ps len qs le
    by (auto simp: init_def ready_def Let_def split: list.splits reply.splits)
qed

lemma pool2_value:
  "pool2 =
    \<lparr>num_envs = Some 2,
     p_to_workers = Some [(counter_proc 0)\<lparr>sent := [(''get_spaces'', PyNone)]\<rparr>, counter_proc 0],
     action_space = Some 2, observation_space = Some 1,
     step_counters = Some [0, 0],
     np_random = (\<lambda>n. rng0 (Suc (Suc n))),
     np_shape = (\<lambda>v. [])\<rparr>"
  by (simp add: pool2_def init_def counter_fn_def start_def counter_sim_def randint_def
      pipe_send_def serve_def worker_iter_def counter_proc_def)

lemma init_pool2: "init [counter_fn, counter_fn] rng0 (\<lambda>v. []) = Returns pool2 ()"
  by (simp add: pool2_def init_def counter_fn_def start_def counter_sim_def randint_def
      pipe_send_def serve_def worker_iter_def counter_proc_def)

lemma ready_pool2: "ready pool2"
  by (simp add: pool2_value ready_def counter_proc_def)

lemma uniform_shape_pool2: "uniform_shape pool2"
  by (simp add: pool2_value uniform_shape_def)

subsection \<open>reset\<close>

lemma count_nonzero_0: "count_nonzero msk = 0 \<longleftrightarrow> True \<notin> set msk"
  by (induction msk) (auto simp: count_nonzero_def)

lemma count_nonzero_nth: "count_nonzero msk = 0 \<Longrightarrow> i < length msk \<Longrightarrow> \<not> msk ! i"
  using count_nonzero_0 [of msk] nth_mem [of i msk] by (cases "msk ! i") auto

text \<open>
  Claim C5. With a mask that flags no worker, \<^verbatim>\<open>reset(mask)\<close> returns \<^verbatim>\<open>None\<close> (the empty
  result) and raises nothing; the coordinator, its pipes and the log of messages sent on
  each of them are what they were, so no command went to any worker. This holds for every
  coordinator and for a mask of any length.
\<close>

theorem reset_nothing_flagged:
  assumes "True \<notin> set msk"
  shows "reset (Some msk) be = Returns None be"
  using assms by (simp add: reset_def count_nonzero_0)

theorem reset_nothing_flagged_witness:
  "reset (Some [False, False]) pool2 = Returns None pool2"
  using reset_nothing_flagged [of "[False, False]" pool2] by simp

lemma count_nonzero_replicate: "count_nonzero (replicate n True) = n"
  by (simp add: count_nonzero_def)

lemma set_masked_all: "set_masked cs (replicate (length cs) True) = Inr (map (\<lambda>c. 0) cs)"
  by (simp add: set_masked_def zip_replicate2 comp_def map_idI)

lemma send_resets_masked_all:
  "send_resets_masked ws (replicate (length ws) True) = map (pipe_send (''reset'', PyNone)) ws"
  by (induction ws) simp_all

lemma recv_masked_all: "recv_masked ws (replicate (length ws) True) = recv_all ws"
  by (induction ws) (simp_all split: list.splits prod.splits option.splits)

lemma reset_all_effects:
  assumes "p_to_workers be = Some ws" and "step_counters be = Some cs"
  shows "step_counters (final (reset None be)) = Some (map (\<lambda>c. 0) cs)
       \<and> map sent (the (p_to_workers (final (reset None be))))
           = map (\<lambda>w. sent w @ [(''reset'', PyNone)]) ws"
proof -
  obtain ws2 r where rc: "recv_all (map (pipe_send (''reset'', PyNone)) ws) = (ws2, r)"
    by (cases "recv_all (map (pipe_send (''reset'', PyNone)) ws)")
  have s: "map sent ws2 = map (\<lambda>w. sent w @ [(''reset'', PyNone)]) ws"
    using sent_recv_all [of "map (pipe_send (''reset'', PyNone)) ws"] rc
    by (simp add: sent_pipe_send comp_def)
  show ?thesis
    using assms rc s
    by (cases r) (simp_all add: reset_def stack_replies_def Let_def split: sum.splits)
qed

text \<open>
  What \<^verbatim>\<open>reset\<close> without a mask returns. A worker with no reply waiting answers a reset
  command with its fresh observation, or not at all when it has exited or its reset
  raises.
\<close>

lemma outbox_pipe_send_reset:
  assumes "outbox w = []"
  shows "outbox (pipe_send (''reset'', d) w) =
           (case fresh_observation w of None \<Rightarrow> [] | Some ob \<Rightarrow> [ResetResult ob])"
  using assms
  by (simp add: pipe_send_def serve_def worker_iter_def fresh_observation_def
      split: pstate.splits sum.splits prod.splits)

lemma recv_all_full:
  "list_all (\<lambda>w. outbox w \<noteq> []) ws
   \<Longrightarrow> snd (recv_all ws) = Some (map (\<lambda>w. hd (outbox w)) ws)"
  by (induction ws) (auto split: list.splits prod.splits option.splits)

lemma reset_observations_map:
  "reset_observations (map (\<lambda>w. ResetResult (f w)) ws) = Inr (map f ws)"
  by (induction ws) simp_all

lemma reset_all_result:
  assumes ws: "p_to_workers be = Some ws" and ne: "ws \<noteq> []"
    and cs: "step_counters be = Some cs"
    and q: "list_all (\<lambda>w. outbox w = []) ws"
  shows "(is_Returns (reset None be) \<longleftrightarrow>
            list_all (\<lambda>w. fresh_observation w \<noteq> None) ws
            \<and> same_shape (np_shape be) (map (\<lambda>w. the (fresh_observation w)) ws))
       \<and> (is_Returns (reset None be) \<longrightarrow>
            result (reset None be) = Some (map (\<lambda>w. the (fresh_observation w)) ws))"
proof (cases "list_all (\<lambda>w. fresh_observation w \<noteq> None) ws")
  case True
  let ?ps = "map (pipe_send (''reset'', PyNone)) ws"
  let ?obs = "map (\<lambda>w. the (fresh_observation w)) ws"
  have ob: "map outbox ?ps = map (\<lambda>w. [ResetResult (the (fresh_observation w))]) ws"
    using q True by (auto simp: list_all_iff outbox_pipe_send_reset)
  then have "list_all (\<lambda>x. x \<noteq> []) (map outbox ?ps)" by (simp add: list_all_iff)
  then have "list_all (\<lambda>w. outbox w \<noteq> []) ?ps" by (simp add: list_all_iff)
  from recv_all_full [OF this]
  have "snd (recv_all ?ps) = Some (map hd (map outbox ?ps))" by (simp add: comp_def)
  with ob have "snd (recv_all ?ps)
      = Some (map (\<lambda>w. ResetResult (the (fresh_observation w))) ws)"
    by (simp add: comp_def)
  then obtain ws2 where
    rc: "recv_all ?ps = (ws2, Some (map (\<lambda>w. ResetResult (the (fresh_observation w))) ws))"
    by (cases "recv_all ?ps") simp
  have st: "stack_replies (np_shape be) st
              (map (\<lambda>w. ResetResult (the (fresh_observation w))) ws)
            = (if same_shape (np_shape be) ?obs then Returns (Some ?obs) st
               else Raises ValueError st)" for st :: "('a, 'b) batched_env"
    using ne by (simp add: stack_replies_def reset_observations_map np_stack_def)
  from ws cs rc True show ?thesis
    by (simp add: reset_def st Let_def)
next
  case False
  let ?ps = "map (pipe_send (''reset'', PyNone)) ws"
  from False obtain w where w: "w \<in> set ws" "fresh_observation w = None"
    by (auto simp: list_all_iff)
  with q have "outbox (pipe_send (''reset'', PyNone) w) = []"
    by (simp add: list_all_iff outbox_pipe_send_reset)
  with w(1) have "list_ex (\<lambda>w. outbox w = []) ?ps" by (auto simp: list_ex_iff)
  then have "snd (recv_all ?ps) = None" by (rule recv_all_starved)
  then obtain ws2 where rc: "recv_all ?ps = (ws2, None)" by (cases "recv_all ?ps") simp
  with ws cs False show ?thesis by (simp add: reset_def Let_def)
qed

text \<open>
  Claim C6. On a coordinator with at least one worker and one counter per worker,
  \<^verbatim>\<open>reset\<close> with the mask that is true for every worker is the same call as \<^verbatim>\<open>reset(None)\<close>:
  the same outcome, the same result and the same coordinator afterwards. In it every
  counter is zero, and a reset command has been sent on every pipe. Between two calls
  (no reply waits in a pipe) the call returns exactly when every worker runs, no reset
  raises and the fresh observations have one shape, and what it returns is the fresh
  observations of all workers in the order of the workers.
\<close>

theorem reset_all_true_mask:
  assumes "p_to_workers be = Some ws" and "ws \<noteq> []"
    and "step_counters be = Some cs" and "length cs = length ws"
  shows "reset (Some (replicate (length ws) True)) be = reset None be
       \<and> step_counters (final (reset None be)) = Some (replicate (length ws) 0)
       \<and> map sent (the (p_to_workers (final (reset None be))))
           = map (\<lambda>w. sent w @ [(''reset'', PyNone)]) ws
       \<and> (list_all (\<lambda>w. outbox w = []) ws \<longrightarrow>
            (is_Returns (reset None be) \<longleftrightarrow>
               list_all (\<lambda>w. fresh_observation w \<noteq> None) ws
               \<and> same_shape (np_shape be) (map (\<lambda>w. the (fresh_observation w)) ws))
            \<and> (is_Returns (reset None be) \<longrightarrow>
                 result (reset None be) = Some (map (\<lambda>w. the (fresh_observation w)) ws)))"
proof -
  have "recv_masked (send_resets_masked ws (replicate (length ws) True))
          (replicate (length ws) True)
        = recv_all (map (pipe_send (''reset'', PyNone)) ws)"
    using recv_masked_all [of "map (pipe_send (''reset'', PyNone)) ws"]
    by (simp add: send_resets_masked_all)
  moreover have "set_masked cs (replicate (length ws) True) = Inr (map (\<lambda>c. 0) cs)"
    using set_masked_all [of cs] assms(4) by simp
  ultimately have "reset (Some (replicate (length ws) True)) be = reset None be"
    using assms by (simp add: reset_def count_nonzero_replicate)
  moreover have "map (\<lambda>c. 0 :: 16 word) cs = replicate (length ws) 0"
    using assms(4) by (simp add: map_replicate_const)
  ultimately show ?thesis
    using reset_all_effects [OF assms(1) assms(3)]
      reset_all_result [OF assms(1) assms(2) assms(3)]
    by simp
qed

text \<open>
  On the pool of the scenario both calls return the observations \<open>[0, 0]\<close> of the two
  workers.
\<close>

theorem reset_all_true_mask_witness:
  "reset (Some [True, True]) pool2 = reset None pool2
   \<and> step_counters (final (reset None pool2)) = Some [0, 0]
   \<and> map sent (the (p_to_workers (final (reset None pool2)))) =
       [[(''get_spaces'', PyNone), (''reset'', PyNone)], [(''reset'', PyNone)]]
   \<and> is_Returns (reset (Some [True, True]) pool2)
   \<and> result (reset (Some [True, True]) pool2) = Some [0, 0]"
  using reset_all_true_mask
    [of pool2 "[(counter_proc 0)\<lparr>sent := [(''get_spaces'', PyNone)]\<rparr>, counter_proc 0]" "[0, 0]"]
  by (simp add: pool2_value counter_proc_def counter_sim_def fresh_observation_def
      same_shape_def)

text \<open>A call of \<^verbatim>\<open>reset\<close> that returns leaves the coordinator \<open>ready\<close>.\<close>

lemma recv_masked_drains:
  assumes "list_all (\<lambda>w. outbox w = []) ws"
    and "recv_masked (send_resets_masked ws msk) msk = (ws2, Some rs)"
  shows "list_all (\<lambda>w. outbox w = []) ws2 \<and> length ws2 = length ws"
  using assms
proof (induction ws msk arbitrary: ws2 rs rule: send_resets_masked.induct)
  case (1 w ws m ms)
  from "1.prems"(1) have qw: "outbox w = []" and qs: "list_all (\<lambda>w. outbox w = []) ws"
    by simp_all
  obtain ws' r where rc: "recv_masked (send_resets_masked ws ms) ms = (ws', r)"
    by (cases "recv_masked (send_resets_masked ws ms) ms")
  show ?case
  proof (cases m)
    case True
    from outbox_pipe_send_le [OF qw, of "(''reset'', PyNone)"]
    have le: "length (outbox (pipe_send (''reset'', PyNone) w)) \<le> 1" .
    from "1.prems"(2) True rc obtain x q rs' where
      ob: "outbox (pipe_send (''reset'', PyNone) w) = x # q" and r: "r = Some rs'"
      and ws2: "ws2 = (pipe_send (''reset'', PyNone) w)\<lparr>outbox := q\<rparr> # ws'"
      by (auto split: list.splits option.splits)
    from le ob have "q = []" by simp
    with "1.IH" [OF qs rc [unfolded r]] ws2 show ?thesis by simp
  next
    case False
    with "1.prems"(2) rc have r: "r = Some rs" and ws2: "ws2 = w # ws'" by auto
    with "1.IH" [OF qs rc [unfolded r]] qw show ?thesis by simp
  qed
qed simp_all

lemma reset_ready:
  assumes rdy: "ready be" and ret: "reset msk be = Returns r be'"
  shows "ready be'"
proof -
  from rdy obtain ws cs where ws: "p_to_workers be = Some ws" "ws \<noteq> []"
    and nv: "num_envs be = Some (length ws)"
    and q: "list_all (\<lambda>w. outbox w = []) ws" and cs: "step_counters be = Some cs"
    and lc: "length cs = length ws"
    by (auto simp: ready_def split: option.splits)
  show ?thesis
  proof (cases msk)
    case None
    obtain ws2 rr where rc: "recv_all (map (pipe_send (''reset'', PyNone)) ws) = (ws2, rr)"
      by (cases "recv_all (map (pipe_send (''reset'', PyNone)) ws)")
    with ret None ws cs obtain rs where rr: "rr = Some rs"
      by (cases rr) (auto simp: reset_def Let_def)
    from recv_all_drains [OF rc [unfolded rr] map_pipe_send_le [OF q]]
    have d: "list_all (\<lambda>w. outbox w = []) ws2" and l: "length ws2 = length ws" by simp_all
    from l ws(2) have "ws2 \<noteq> []" by auto
    with ret None ws nv cs lc rc rr d l show ?thesis
      by (auto simp: reset_def stack_replies_def ready_def Let_def split: sum.splits)
  next
    case (Some m)
    show ?thesis
    proof (cases "count_nonzero m = 0")
      case True
      with ret Some rdy show ?thesis by (simp add: reset_def)
    next
      case False
      with ret Some cs have lm: "length m = length cs"
        by (auto simp: reset_def set_masked_def split: if_splits)
      obtain ws2 rr where rc: "recv_masked (send_resets_masked ws m) m = (ws2, rr)"
        by (cases "recv_masked (send_resets_masked ws m) m")
      with ret Some False ws cs lm obtain rs where rr: "rr = Some rs"
        by (cases rr) (auto simp: reset_def set_masked_def Let_def)
      from recv_masked_drains [OF q rc [unfolded rr]]
      have d: "list_all (\<lambda>w. outbox w = []) ws2" and l: "length ws2 = length ws" by simp_all
      from l ws(2) have "ws2 \<noteq> []" by auto
      with ret Some False ws nv cs lc lm rc rr d l show ?thesis
        by (auto simp: reset_def set_masked_def stack_replies_def ready_def Let_def
            split: sum.splits)
    qed
  qed
qed

lemma step_counters_reset_all:
  "reset None be = Returns r be' \<Longrightarrow>
   step_counters be' = map_option (map (\<lambda>c. 0)) (step_counters be)"
  by (auto simp: reset_def stack_replies_def Let_def split: option.splits prod.splits sum.splits)

lemma step_counters_reset_masked:
  assumes "reset (Some msk) be = Returns r be'" and "step_counters be = Some cs"
  shows "(count_nonzero msk = 0 \<and> step_counters be' = Some cs) \<or>
         (length msk = length cs \<and>
          step_counters be' = Some (map (\<lambda>(c, m). if m then 0 else c) (zip cs msk)))"
  using assms
  by (auto simp: reset_def stack_replies_def set_masked_def Let_def
      split: option.splits prod.splits sum.splits if_splits)

subsection \<open>step\<close>

lemma length_send_steps: "length (send_steps ws as) = length ws"
  by (induction ws as rule: send_steps.induct) simp_all

lemma sent_send_steps:
  "map sent (send_steps ws as) =
     map (\<lambda>(w, a). sent w @ [(''step'', Val a)]) (zip ws as) @ map sent (drop (length as) ws)"
  by (induction ws as rule: send_steps.induct) (simp_all add: sent_pipe_send)

lemma send_steps_take: "send_steps ws as = send_steps ws (take (length ws) as)"
  by (induction ws as rule: send_steps.induct) simp_all

lemma send_steps_starved:
  "length as < length ws \<Longrightarrow> list_all (\<lambda>w. outbox w = []) ws
   \<Longrightarrow> list_ex (\<lambda>w. outbox w = []) (send_steps ws as)"
  by (induction ws as rule: send_steps.induct) (auto simp: neq_Nil_conv)

lemma send_steps_replies:
  "list_all (\<lambda>w. outbox w = []) ws
   \<Longrightarrow> list_all (\<lambda>w. list_all is_StepResult (outbox w)) (send_steps ws as)"
proof (induction ws as rule: send_steps.induct)
  case (1 w ws a as)
  then show ?case using outbox_pipe_send_step [of w "Val a"] by simp
qed (simp_all add: list_all_iff)

lemma send_steps_le:
  "list_all (\<lambda>w. outbox w = []) ws
   \<Longrightarrow> list_all (\<lambda>w. length (outbox w) \<le> 1) (send_steps ws as)"
proof (induction ws as rule: send_steps.induct)
  case (1 w ws a as)
  then show ?case using outbox_pipe_send_le [of w "(''step'', Val a)"] by simp
qed (simp_all add: list_all_iff)

lemma unzip_results_ok:
  "rs \<noteq> [] \<Longrightarrow> list_all is_StepResult rs
   \<Longrightarrow> \<exists>obs rws ds is. unzip_results rs = Inr (obs, rws, ds, is) \<and> length obs = length rs
        \<and> length rws = length rs \<and> length ds = length rs \<and> length is = length rs"
  by (induction rs rule: unzip_results.induct) auto

lemma recv_all_step_replies:
  assumes "list_all (\<lambda>w. list_all is_StepResult (outbox w)) ws"
    and "recv_all ws = (ws', Some rs)"
  shows "list_all is_StepResult rs \<and> length rs = length ws"
proof -
  from assms(2) have rs: "rs = map (\<lambda>w. hd (outbox w)) ws"
    and ne: "list_all (\<lambda>w. outbox w \<noteq> []) ws"
    using recv_all_Some by blast+
  have "list_all is_StepResult (map (\<lambda>w. hd (outbox w)) ws)"
    using assms(1) ne by (induction ws) (auto simp: neq_Nil_conv)
  with rs show ?thesis by simp
qed

lemma np_stack_uniform:
  "\<forall>x y. shape x = shape y \<Longrightarrow> xs \<noteq> [] \<Longrightarrow> np_stack shape xs = Inr xs"
  by (simp add: np_stack_def same_shape_def list_all_iff)

lemma np_stack_dones: "ds \<noteq> [] \<Longrightarrow> np_stack (\<lambda>d. []) ds = Inr ds"
  by (simp add: np_stack_uniform)

text \<open>
  Between two calls, \<^verbatim>\<open>step\<close> raises nothing when the values all have one shape; only
  \<^verbatim>\<open>np.stack\<close> can raise there, for observations or rewards of different shapes.
\<close>

lemma step_never_raises:
  assumes "ready be" and sh: "uniform_shape be"
  shows "\<not> is_Raises (step actions be)"
proof -
  from assms obtain ws cs where ws: "p_to_workers be = Some ws" "ws \<noteq> []"
    and q: "list_all (\<lambda>w. outbox w = []) ws" and cs: "step_counters be = Some cs"
    by (auto simp: ready_def split: option.splits)
  obtain ws2 r where rc: "recv_all (send_steps ws actions) = (ws2, r)"
    by (cases "recv_all (send_steps ws actions)")
  show ?thesis
  proof (cases r)
    case None
    with ws rc show ?thesis by (simp add: step_def)
  next
    case (Some rs)
    with rc send_steps_replies [OF q, of actions]
    have "list_all is_StepResult rs" "length rs = length ws"
      using recv_all_step_replies [of "send_steps ws actions" ws2 rs]
      by (simp_all add: length_send_steps)
    with ws(2) obtain obs rws ds "is" where u: "unzip_results rs = Inr (obs, rws, ds, is)"
      and l: "obs \<noteq> []" "rws \<noteq> []" "ds \<noteq> []"
      using unzip_results_ok [of rs] by fastforce
    from sh have s1: "np_stack (np_shape be) obs = Inr obs"
      and s2: "np_stack (np_shape be) rws = Inr rws"
      using l by (simp_all add: np_stack_uniform uniform_shape_def)
    with u ws cs rc Some l show ?thesis
      by (simp add: step_def np_stack_dones)
  qed
qed

lemma step_take: "p_to_workers be = Some ws \<Longrightarrow> step actions be = step (take (length ws) actions) be"
  using send_steps_take [of ws actions] by (simp add: step_def)

lemma step_ready:
  assumes "ready be" and "step actions be = Returns r be'"
  shows "ready be'"
proof -
  from assms(1) obtain ws cs where ws: "p_to_workers be = Some ws" "ws \<noteq> []"
    and nv: "num_envs be = Some (length ws)"
    and q: "list_all (\<lambda>w. outbox w = []) ws" and cs: "step_counters be = Some cs"
    and lc: "length cs = length ws"
    by (auto simp: ready_def split: option.splits)
  obtain ws2 rr where rc: "recv_all (send_steps ws actions) = (ws2, rr)"
    by (cases "recv_all (send_steps ws actions)")
  with assms(2) ws obtain rs where rr: "rr = Some rs"
    by (cases rr) (auto simp: step_def)
  from recv_all_drains [OF rc [unfolded rr] send_steps_le [OF q]]
  have d: "list_all (\<lambda>w. outbox w = []) ws2" and l: "length ws2 = length ws"
    by (simp_all add: length_send_steps)
  from l ws(2) have "ws2 \<noteq> []" by auto
  with assms(2) ws nv cs lc rc rr d l show ?thesis
    by (auto simp: step_def ready_def Let_def split: sum.splits prod.splits)
qed

lemma step_counters_step:
  "step actions be = Returns r be' \<Longrightarrow>
   step_counters be' = map_option (map (\<lambda>c. c + 1)) (step_counters be)"
  by (auto simp: step_def Let_def split: option.splits prod.splits sum.splits)

text \<open>
  Claim C4, as the specification states it, asks \<^verbatim>\<open>step\<close> to fail with an error, before any
  command is sent, when the number of actions is not the number of workers. The code has
  no such check. With three actions for the two workers of the scenario the call returns
  the result of the first two actions, and each worker was sent a step command; with one
  action, worker 0 was sent a step command and the call never returns.
\<close>

theorem step_length_unchecked_counterexample:
  "length [0, 0, 5 :: int] \<noteq> 2
   \<and> step [0, 0, 5] pool2 =
       Returns ([1, 1], [1, 1], [False, False], [0, 0]) (final (step [0, 0, 5] pool2))
   \<and> map sent (the (p_to_workers (final (step [0, 0, 5] pool2)))) =
       [[(''get_spaces'', PyNone), (''step'', Val 0)], [(''step'', Val 0)]]
   \<and> is_Hangs (step [0] pool2)
   \<and> map sent (the (p_to_workers (final (step [0] pool2)))) =
       [[(''get_spaces'', PyNone), (''step'', Val 0)], []]"
  by (simp add: pool2_value step_def pipe_send_def serve_def worker_iter_def counter_proc_def
      counter_sim_def np_stack_def same_shape_def)

lemma sent_after_step:
  assumes "p_to_workers be = Some ws"
  shows "map sent (the (p_to_workers (final (step actions be)))) =
           map sent (send_steps ws actions)"
proof -
  obtain ws2 r where rc: "recv_all (send_steps ws actions) = (ws2, r)"
    by (cases "recv_all (send_steps ws actions)")
  have s: "map sent ws2 = map sent (send_steps ws actions)"
    using sent_recv_all [of "send_steps ws actions"] rc by simp
  show ?thesis
    using assms rc s
    by (cases r) (simp_all add: step_def Let_def split: sum.splits option.splits prod.splits)
qed

text \<open>
  Claim C4, amended. \<^verbatim>\<open>step\<close> does not check the number of actions. On a coordinator
  between two calls and with a number of actions other than the number of workers,
  worker \<open>i\<close> is sent the step command for action \<open>i\<close> for every \<open>i\<close> that has both a
  worker and an action, and nothing else is sent. With more actions than workers the
  call is the call with the first \<open>num_envs\<close> actions (the same outcome, result and
  state): the others are ignored. With fewer, the call raises nothing and never returns.
\<close>

theorem step_without_length_check:
  assumes rdy: "ready be" and ws: "p_to_workers be = Some ws"
    and len: "length actions \<noteq> length ws"
  shows "map sent (the (p_to_workers (final (step actions be)))) =
           map (\<lambda>(w, a). sent w @ [(''step'', Val a)]) (zip ws actions)
           @ map sent (drop (length actions) ws)
     \<and> (length ws < length actions \<longrightarrow> step actions be = step (take (length ws) actions) be)
     \<and> (length actions < length ws \<longrightarrow> is_Hangs (step actions be))"
proof -
  have a: "map sent (the (p_to_workers (final (step actions be)))) =
           map (\<lambda>(w, a). sent w @ [(''step'', Val a)]) (zip ws actions)
           @ map sent (drop (length actions) ws)"
    using sent_after_step [OF ws, of actions] by (simp add: sent_send_steps)
  have b: "step actions be = step (take (length ws) actions) be" using ws by (rule step_take)
  have c: "is_Hangs (step actions be)" if lt: "length actions < length ws"
  proof -
    from rdy ws have q: "list_all (\<lambda>w. outbox w = []) ws"
      by (auto simp: ready_def split: option.splits)
    obtain ws2 r where rc: "recv_all (send_steps ws actions) = (ws2, r)"
      by (cases "recv_all (send_steps ws actions)")
    have "snd (recv_all (send_steps ws actions)) = None"
      using send_steps_starved [OF lt q] by (rule recv_all_starved)
    with rc have r: "r = None" by simp
    with ws rc show ?thesis by (simp add: step_def)
  qed
  from a b c show ?thesis by blast
qed

theorem step_without_length_check_witness:
  "is_Hangs (step [0] pool2)
   \<and> map sent (the (p_to_workers (final (step [0] pool2)))) =
       [[(''get_spaces'', PyNone), (''step'', Val 0)], []]
   \<and> step [0, 0, 5] pool2 = step [0, 0] pool2"
  using step_without_length_check
    [OF ready_pool2, of "[(counter_proc 0)\<lparr>sent := [(''get_spaces'', PyNone)]\<rparr>, counter_proc 0]" "[0]"]
   step_without_length_check
    [OF ready_pool2, of "[(counter_proc 0)\<lparr>sent := [(''get_spaces'', PyNone)]\<rparr>, counter_proc 0]" "[0, 0, 5]"]
  by (simp add: pool2_value counter_proc_def)

subsection \<open>The step counters\<close>

text \<open>
  When every worker runs a simulation that never raises and enough actions are given,
  \<^verbatim>\<open>step\<close> returns, adds one to every counter in 16-bit arithmetic, and leaves the
  coordinator in a state of the same kind; so do \<open>n\<close> calls in a row.
\<close>

lemma alive_step:
  assumes "alive w"
  shows "\<exists>r s'. is_StepResult r \<and>
           pipe_send (''step'', d) w =
             w\<lparr>sent := sent w @ [(''step'', d)], pstate := Running s', outbox := [r]\<rparr>"
proof -
  from assms obtain s where run: "pstate w = Running s" and ob: "outbox w = []"
    and nr: "never_raises (env w)"
    by (auto simp: alive_def split: pstate.splits)
  from nr obtain ob1 reward dn info s1 where
    stp: "env_step (env w) d s = Inr ((ob1, reward, dn, info), s1)"
    unfolding never_raises_def by (metis prod_cases4 surj_pair)
  from nr obtain total_info s2 where cpy: "info_copy (env w) info s1 = Inr (total_info, s2)"
    unfolding never_raises_def by (metis surj_pair)
  from nr obtain ob0 s3 where rst: "env_reset (env w) s2 = Inr (ob0, s3)"
    unfolding never_raises_def by (metis surj_pair)
  show ?thesis
  proof (cases dn)
    case True
    with run ob stp cpy rst have
      "pipe_send (''step'', d) w =
         w\<lparr>sent := sent w @ [(''step'', d)], pstate := Running s3,
           outbox := [StepResult ob0 reward True total_info]\<rparr>"
      by (simp add: pipe_send_def serve_def worker_iter_def)
    moreover have "is_StepResult (StepResult ob0 reward True total_info)" by simp
    ultimately show ?thesis by blast
  next
    case False
    with run ob stp cpy have
      "pipe_send (''step'', d) w =
         w\<lparr>sent := sent w @ [(''step'', d)], pstate := Running s2,
           outbox := [StepResult ob1 reward False total_info]\<rparr>"
      by (simp add: pipe_send_def serve_def worker_iter_def)
    moreover have "is_StepResult (StepResult ob1 reward False total_info)" by simp
    ultimately show ?thesis by blast
  qed
qed

lemma alive_after_recv:
  "alive w \<Longrightarrow> alive (w\<lparr>sent := m, pstate := Running s', outbox := []\<rparr>)"
  by (simp add: alive_def)

lemma alive_round:
  assumes "list_all alive ws" and "length ws \<le> length as"
  shows "\<exists>ws' rs. recv_all (send_steps ws as) = (ws', Some rs) \<and> list_all alive ws'
            \<and> length ws' = length ws \<and> length rs = length ws \<and> list_all is_StepResult rs"
  using assms
proof (induction ws as rule: send_steps.induct)
  case (1 w ws a as)
  then have aw: "alive w" and IH: "\<exists>ws' rs. recv_all (send_steps ws as) = (ws', Some rs)
      \<and> list_all alive ws' \<and> length ws' = length ws \<and> length rs = length ws
      \<and> list_all is_StepResult rs"
    by simp_all
  from alive_step [OF aw, of "Val a"] obtain r s' where r: "is_StepResult r"
    and ps: "pipe_send (''step'', Val a) w =
       w\<lparr>sent := sent w @ [(''step'', Val a)], pstate := Running s', outbox := [r]\<rparr>"
    by blast
  from IH obtain ws' rs where rc: "recv_all (send_steps ws as) = (ws', Some rs)"
    and al: "list_all alive ws'" and l1: "length ws' = length ws" and l2: "length rs = length ws"
    and st: "list_all is_StepResult rs" by blast
  have "alive (w\<lparr>sent := sent w @ [(''step'', Val a)], pstate := Running s', outbox := []\<rparr>)"
    using aw by (rule alive_after_recv)
  with ps rc al l1 l2 st r show ?case by simp
qed simp_all

lemma step_returns:
  assumes h: "ready be" and ws: "p_to_workers be = Some ws" and al: "list_all alive ws"
    and cs: "step_counters be = Some cs" and len: "length ws \<le> length actions"
    and sh: "uniform_shape be"
  shows "\<exists>r be' ws'. step actions be = Returns r be' \<and> ready be' \<and> uniform_shape be'
           \<and> p_to_workers be' = Some ws' \<and> list_all alive ws' \<and> length ws' = length ws
           \<and> step_counters be' = Some (map (\<lambda>c. c + 1) cs)"
proof -
  from alive_round [OF al len] obtain ws' rs where
    rc: "recv_all (send_steps ws actions) = (ws', Some rs)" and al': "list_all alive ws'"
    and l1: "length ws' = length ws" and l2: "length rs = length ws"
    and st: "list_all is_StepResult rs" by blast
  from h ws have ne: "ws \<noteq> []" and nv: "num_envs be = Some (length ws)"
    and lc: "length cs = length ws"
    using cs by (auto simp: ready_def)
  from ne l2 st obtain obs rws ds "is" where u: "unzip_results rs = Inr (obs, rws, ds, is)"
    and l: "obs \<noteq> []" "rws \<noteq> []" "ds \<noteq> []"
    using unzip_results_ok [of rs] by fastforce
  have q: "list_all (\<lambda>w. outbox w = []) ws'"
    using al' by (simp add: list_all_iff alive_def)
  from ne l1 have ne': "ws' \<noteq> []" by auto
  from sh have s1: "np_stack (np_shape be) obs = Inr obs"
    and s2: "np_stack (np_shape be) rws = Inr rws"
    using l by (simp_all add: np_stack_uniform uniform_shape_def)
  show ?thesis
    using ws cs rc u l al' l1 ne ne' nv lc q s1 s2 sh
    by (simp add: step_def np_stack_dones ready_def uniform_shape_def)
qed

lemma run_steps_returns:
  assumes h: "ready be" and ws: "p_to_workers be = Some ws" and al: "list_all alive ws"
    and cs: "step_counters be = Some cs" and len: "length ws \<le> length actions"
    and sh: "uniform_shape be"
  shows "\<exists>be' ws'. run_steps n actions be = Some be' \<and> ready be' \<and> uniform_shape be'
           \<and> p_to_workers be' = Some ws' \<and> list_all alive ws' \<and> length ws' = length ws
           \<and> step_counters be' = Some (map (\<lambda>c. c + of_nat n) cs)"
proof (induction n)
  case 0
  with assms show ?case by simp
next
  case (Suc n)
  then obtain be1 ws1 where r: "run_steps n actions be = Some be1" and h1: "ready be1"
    and u1: "uniform_shape be1"
    and w1: "p_to_workers be1 = Some ws1" and a1: "list_all alive ws1"
    and l1: "length ws1 = length ws"
    and c1: "step_counters be1 = Some (map (\<lambda>c. c + of_nat n) cs)" by blast
  from len l1 have len1: "length ws1 \<le> length actions" by simp
  from step_returns [OF h1 w1 a1 c1 len1 u1] obtain res be2 ws2 where
    s: "step actions be1 = Returns res be2" and h2: "ready be2"
    and u2: "uniform_shape be2"
    and w2: "p_to_workers be2 = Some ws2" and a2: "list_all alive ws2"
    and l2: "length ws2 = length ws1"
    and c2: "step_counters be2 = Some (map (\<lambda>c. c + 1) (map (\<lambda>c. c + of_nat n) cs))"
    by blast
  have "map (\<lambda>c. c + 1) (map (\<lambda>c. c + of_nat n) cs) = map (\<lambda>c. c + of_nat (Suc n)) cs"
    by (simp add: add.assoc add.commute)
  with r s h2 u2 w2 a2 l2 l1 c2 show ?case by simp
qed

lemma never_raises_counter_sim: "never_raises counter_sim"
  by (simp add: never_raises_def counter_sim_def)

lemma alive_counter_proc: "alive ((counter_proc n)\<lparr>sent := ms\<rparr>)" "alive (counter_proc n)"
  by (simp_all add: alive_def counter_proc_def never_raises_counter_sim)

lemma run_steps_pool2:
  "\<exists>be' ws'. run_steps n [0, 0] pool2 = Some be' \<and> ready be' \<and> uniform_shape be'
      \<and> p_to_workers be' = Some ws' \<and> list_all alive ws' \<and> length ws' = 2
      \<and> step_counters be' = Some [of_nat n, of_nat n]"
proof -
  have w: "p_to_workers pool2 =
      Some [(counter_proc 0)\<lparr>sent := [(''get_spaces'', PyNone)]\<rparr>, counter_proc 0]"
    by (simp add: pool2_value)
  have c: "step_counters pool2 = Some [0, 0]" by (simp add: pool2_value)
  have a: "list_all alive
      [(counter_proc 0)\<lparr>sent := [(''get_spaces'', PyNone)]\<rparr>, counter_proc 0]"
    by (simp add: alive_counter_proc)
  from run_steps_returns [OF ready_pool2 w a c _ uniform_shape_pool2, of "[0, 0]" n]
  show ?thesis
    by (simp add: numeral_2_eq_2)
qed

lemma sint_succ_int16:
  fixes c :: "16 word"
  assumes "sint c < 32767"
  shows "sint (c + 1) = sint c + 1"
proof -
  have lo: "- 32768 \<le> sint c" using sint_ge [of c] by simp
  have "c + 1 = word_of_int (sint c + 1)" by simp
  then have "sint (c + 1) = signed_take_bit 15 (sint c + 1)"
    by (simp only: signed_of_int) simp
  also have "\<dots> = sint c + 1"
    using lo assms by (intro signed_take_bit_int_eq_self) simp_all
  finally show ?thesis .
qed

lemma sint_of_nat_int16:
  "n < 32768 \<Longrightarrow> sint (of_nat n :: 16 word) = int n"
proof -
  assume "n < 32768"
  then have "signed_take_bit 15 (int n) = int n"
    by (intro signed_take_bit_int_eq_self) simp_all
  then show ?thesis by (simp add: signed_of_nat)
qed

text \<open>
  After any calls of \<^verbatim>\<open>step\<close> and \<^verbatim>\<open>reset\<close> that all return, the counter of worker \<open>i\<close> is
  the number of step calls since the worker's last reset, as a 16-bit word; it is that
  number itself as long as the number is below \<open>2^15\<close>.
\<close>

lemma run_calls_ready:
  "ready be \<Longrightarrow> run_calls calls be = Some be' \<Longrightarrow> ready be'"
proof (induction calls arbitrary: be)
  case Nil
  then show ?case by simp
next
  case (Cons c calls)
  show ?case
  proof (cases c)
    case (Step actions)
    with Cons.prems(2) obtain r be1 where s: "step actions be = Returns r be1"
      and rest: "run_calls calls be1 = Some be'"
      by (cases "step actions be") simp_all
    from Cons.IH [OF step_ready [OF Cons.prems(1) s] rest] show ?thesis .
  next
    case (Reset msk)
    with Cons.prems(2) obtain r be1 where s: "reset msk be = Returns r be1"
      and rest: "run_calls calls be1 = Some be'"
      by (cases "reset msk be") simp_all
    from Cons.IH [OF reset_ready [OF Cons.prems(1) s] rest] show ?thesis .
  qed
qed

lemma counter_is_steps_since_reset:
  assumes "run_calls calls be = Some be'" and "step_counters be = Some cs"
    and "i < length cs" and "cs ! i = of_nat n"
  shows "\<exists>cs'. step_counters be' = Some cs' \<and> length cs' = length cs
           \<and> cs' ! i = of_nat (steps_since_reset i calls n)"
  using assms
proof (induction calls arbitrary: be cs n)
  case Nil
  then show ?case by simp
next
  case (Cons c calls)
  show ?case
  proof (cases c)
    case (Step actions)
    with Cons.prems(1) obtain r be1 where s: "step actions be = Returns r be1"
      and rest: "run_calls calls be1 = Some be'"
      by (cases "step actions be") simp_all
    from step_counters_step [OF s] Cons.prems(2)
    have c1: "step_counters be1 = Some (map (\<lambda>c. c + 1) cs)" by simp
    have "map (\<lambda>c. c + 1) cs ! i = of_nat (Suc n)"
      using Cons.prems(3,4) by simp
    from Cons.IH [OF rest c1 _ this] Cons.prems(3) Step show ?thesis by simp
  next
    case (Reset msk)
    with Cons.prems(1) obtain r be1 where s: "reset msk be = Returns r be1"
      and rest: "run_calls calls be1 = Some be'"
      by (cases "reset msk be") simp_all
    show ?thesis
    proof (cases msk)
      case None
      from step_counters_reset_all [OF s [unfolded None]] Cons.prems(2)
      have c1: "step_counters be1 = Some (map (\<lambda>c. 0) cs)" by simp
      have "map (\<lambda>c. 0 :: 16 word) cs ! i = of_nat 0" using Cons.prems(3) by simp
      from Cons.IH [OF rest c1 _ this] Cons.prems(3) Reset None show ?thesis by simp
    next
      case (Some m)
      from step_counters_reset_masked [OF s [unfolded Some] Cons.prems(2)]
      consider (none) "count_nonzero m = 0" "step_counters be1 = Some cs"
        | (some) "length m = length cs"
            "step_counters be1 = Some (map (\<lambda>(c, m). if m then 0 else c) (zip cs m))"
        by auto
      then show ?thesis
      proof cases
        case none
        have "\<not> (i < length m \<and> m ! i)" using count_nonzero_nth [OF none(1)] by blast
        then have "steps_since_reset i (c # calls) n = steps_since_reset i calls n"
          using Reset Some by auto
        with Cons.IH [OF rest none(2) Cons.prems(3) Cons.prems(4)]
        show ?thesis by simp
      next
        case some
        have "map (\<lambda>(c, m). if m then 0 else c) (zip cs m) ! i
              = of_nat (if i < length m \<and> m ! i then 0 else n)"
          using some(1) Cons.prems(3,4) by simp
        from Cons.IH [OF rest some(2) _ this] some(1) Cons.prems(3) Reset Some
        show ?thesis by simp
      qed
    qed
  qed
qed

lemma counter_exact_below_int16_max:
  assumes "run_calls calls be = Some be'" and "step_counters be = Some cs"
    and "i < length cs" and "cs ! i = of_nat n"
    and "steps_since_reset i calls n < 32768"
  shows "map_option (\<lambda>cs'. sint (cs' ! i)) (step_counters be')
         = Some (int (steps_since_reset i calls n))"
  using counter_is_steps_since_reset [OF assms(1-4)] sint_of_nat_int16 [OF assms(5)]
  by auto

text \<open>
  Claim C2. The counters are \<^verbatim>\<open>np.int16\<close>, and \<^verbatim>\<open>self._step_counters += 1\<close> wraps around.
  After 32767 calls of \<^verbatim>\<open>step\<close> on the pool of the scenario both counters are 32767; the
  next call returns, and both counters are then -32768, not 32768: the call did not add
  one to the value the counters had. (Below 32767 it does: \<open>step_counters_step\<close> and
  \<open>sint_succ_int16\<close>.)
\<close>

theorem step_counter_wraps_at_int16:
  "map_option
     (\<lambda>be. (map_option (map sint) (step_counters be), is_Returns (step [0, 0] be),
            map_option (map sint) (step_counters (final (step [0, 0] be)))))
     (run_steps 32767 [0, 0] pool2)
   = Some (Some [32767, 32767], True, Some [- 32768, - 32768])"
proof -
  from run_steps_pool2 [of 32767] obtain be' ws' where
    r: "run_steps 32767 [0, 0] pool2 = Some be'" and h: "ready be'"
    and u: "uniform_shape be'"
    and w: "p_to_workers be' = Some ws'" and a: "list_all alive ws'" and l: "length ws' = 2"
    and c: "step_counters be' = Some [32767, 32767]" by auto
  from step_returns [OF h w a c _ u, of "[0, 0]"] l obtain res be2 where
    s: "step [0, 0] be' = Returns res be2" and c2: "step_counters be2 = Some [32768, 32768]"
    by auto
  show ?thesis using r c s c2 by simp
qed

text \<open>
  Claim C3. The same wrap-around: after 32768 calls of \<^verbatim>\<open>step\<close> and no reset since the
  construction, both counters of the pool of the scenario are -32768. They are not the
  number of step calls since the last reset of the worker, and they went down from 32767
  with no reset between. (Up to 32767 step calls since the last reset the counter is
  their number: \<open>counter_exact_below_int16_max\<close>.)
\<close>

theorem step_counter_not_step_count:
  "map_option (\<lambda>be. map_option (map sint) (step_counters be)) (run_steps 32768 [0, 0] pool2)
   = Some (Some [- 32768, - 32768])"
proof -
  from run_steps_pool2 [of 32768] obtain be' where
    r: "run_steps 32768 [0, 0] pool2 = Some be'"
    and c: "step_counters be' = Some [32768, 32768]" by auto
  then show ?thesis by simp
qed

subsection \<open>close\<close>

lemma pstate_pipe_send_close:
  "(case pstate (pipe_send (''close'', d) w) of Running s \<Rightarrow> True | Exited c \<Rightarrow> False) = False"
  by (simp add: pipe_send_def serve_def worker_iter_def split: pstate.splits)

lemma close_returns:
  assumes "p_to_workers be = Some ws"
  shows "close be = Returns ()
           (be\<lparr>num_envs := None, p_to_workers := None, action_space := None,
              observation_space := None, step_counters := None\<rparr>)"
proof -
  have "\<not> list_ex (\<lambda>w. case pstate w of Running s \<Rightarrow> True | Exited c \<Rightarrow> False)
          (map (pipe_send (''close'', PyNone)) ws)"
    by (simp add: list_ex_iff pstate_pipe_send_close)
  with assms show ?thesis by (simp add: close_def)
qed

text \<open>
  Claim C9, as the specification states it, asks every call after \<^verbatim>\<open>close\<close> to fail. On
  the closed pool of the scenario, \<^verbatim>\<open>reset\<close> with a mask that flags no worker returns
  \<^verbatim>\<open>None\<close> and raises nothing.
\<close>

theorem reset_after_close_counterexample:
  "is_Returns (close pool2)
   \<and> reset (Some [False, False]) (final (close pool2)) = Returns None (final (close pool2))"
  by (simp add: pool2_value close_def reset_def count_nonzero_def pipe_send_def serve_def
      worker_iter_def counter_proc_def)

text \<open>
  Claim C9, amended. \<^verbatim>\<open>close\<close> returns on every coordinator that has its pipes. After it,
  \<^verbatim>\<open>step\<close>, \<^verbatim>\<open>seed\<close>, \<^verbatim>\<open>render\<close>, \<^verbatim>\<open>monitor\<close>, \<^verbatim>\<open>reset\<close> without a mask and \<^verbatim>\<open>reset\<close> with a mask
  that flags at least one worker each raise an error (\<^verbatim>\<open>TypeError\<close>, \<^verbatim>\<open>AttributeError\<close> for
  \<^verbatim>\<open>reset\<close> without a mask, \<^verbatim>\<open>ValueError\<close> for \<^verbatim>\<open>render([])\<close>) and leave the closed coordinator
  as it is; none of them hangs. \<^verbatim>\<open>reset\<close> with a mask that flags no worker returns \<^verbatim>\<open>None\<close>
  as it does before \<^verbatim>\<open>close\<close>.
\<close>

theorem calls_after_close:
  assumes ws: "p_to_workers be = Some ws" and be': "be' = final (close be)"
  shows "is_Returns (close be)
     \<and> step actions be' = Raises TypeError be'
     \<and> reset None be' = Raises AttributeError be'
     \<and> (True \<in> set msk \<longrightarrow> reset (Some msk) be' = Raises TypeError be')
     \<and> (True \<notin> set msk \<longrightarrow> reset (Some msk) be' = Returns None be')
     \<and> seed seed_map be' = Raises TypeError be'
     \<and> render env_ids be' = Raises (if env_ids = Some [] then ValueError else TypeError) be'
     \<and> monitor is_monitor is_train experiment_dir record_video_every be' = Raises TypeError be'"
proof -
  note c = close_returns [OF ws]
  have p: "p_to_workers be' = None" and s: "step_counters be' = None"
    using c be' by simp_all
  have "is_Returns (close be)" using c by simp
  moreover have "step actions be' = Raises TypeError be'" using p by (simp add: step_def)
  moreover have "reset None be' = Raises AttributeError be'" using s by (simp add: reset_def)
  moreover have "reset (Some msk) be' = Raises TypeError be'" if "True \<in> set msk"
    using that s count_nonzero_0 [of msk] by (simp add: reset_def)
  moreover have "reset (Some msk) be' = Returns None be'" if "True \<notin> set msk"
    using that count_nonzero_0 [of msk] by (simp add: reset_def)
  moreover have "seed seed_map be' = Raises TypeError be'" using p by (simp add: seed_def)
  moreover have "render env_ids be' =
      Raises (if env_ids = Some [] then ValueError else TypeError) be'"
    using p by (simp add: render_def split: option.splits list.splits)
  moreover have "monitor is_monitor is_train experiment_dir record_video_every be'
      = Raises TypeError be'"
    using p by (simp add: monitor_def)
  ultimately show ?thesis by blast
qed

theorem calls_after_close_witness:
  "is_Returns (close pool2)
   \<and> step [0, 0] (final (close pool2)) = Raises TypeError (final (close pool2))
   \<and> reset None (final (close pool2)) = Raises AttributeError (final (close pool2))
   \<and> reset (Some [False, True]) (final (close pool2)) = Raises TypeError (final (close pool2))
   \<and> reset (Some [False, False]) (final (close pool2)) = Returns None (final (close pool2))
   \<and> seed None (final (close pool2)) = Raises TypeError (final (close pool2))
   \<and> render (Some []) (final (close pool2)) = Raises ValueError (final (close pool2))
   \<and> monitor True True [] 10 (final (close pool2)) = Raises TypeError (final (close pool2))"
  using calls_after_close
    [of pool2 "[(counter_proc 0)\<lparr>sent := [(''get_spaces'', PyNone)]\<rparr>, counter_proc 0]"
        "final (close pool2)" "[0, 0]" "[False, True]" None "Some []" True True "[]" 10]
    calls_after_close
    [of pool2 "[(counter_proc 0)\<lparr>sent := [(''get_spaces'', PyNone)]\<rparr>, counter_proc 0]"
        "final (close pool2)" "[0, 0]" "[False, False]" None "Some []" True True "[]" 10]
  by (simp add: pool2_value)

subsection \<open>seed, render and monitor\<close>

text \<open>
  With a seed map of at least one item, a worker whose index no item names (counting a
  negative index from the end) is sent nothing.
\<close>

lemma length_send_at: "length (send_at m ws k) = length ws"
  by (simp add: send_at_def)

lemma sent_send_at_other: "j \<noteq> k \<Longrightarrow> sent (send_at m ws k ! j) = sent (ws ! j)"
  by (simp add: send_at_def)

lemma sent_seeds_other:
  assumes "list_all (\<lambda>(i, s). py_index (length ws) i \<noteq> Inr j) items"
  shows "length (sent_seeds items ws) = length ws
       \<and> sent (sent_seeds items ws ! j) = sent (ws ! j)"
  using assms
proof (induction items arbitrary: ws)
  case Nil
  then show ?case by simp
next
  case (Cons it items)
  obtain i s where it: "it = (i, s)" by (cases it)
  show ?case
  proof (cases "py_index (length ws) i")
    case (Inl e)
    with it show ?thesis by simp
  next
    case (Inr k)
    with Cons.prems it have jk: "j \<noteq> k" by auto
    from Cons.prems it have
      "list_all (\<lambda>(i', s'). py_index (length (send_at (''seed'', seed_data s) ws k)) i' \<noteq> Inr j)
         items"
      by (simp add: length_send_at)
    from Cons.IH [OF this] Inr it jk show ?thesis
      by (simp add: length_send_at sent_send_at_other)
  qed
qed

lemma send_seeds_sent_seeds: "send_seeds items ws = Inr ws1 \<Longrightarrow> ws1 = sent_seeds items ws"
  by (induction items arbitrary: ws) (auto split: sum.splits)

lemma seed_listed_only:
  assumes "items \<noteq> []" and "p_to_workers be = Some ws"
    and "list_all (\<lambda>(i, s). py_index (length ws) i \<noteq> Inr j) items"
  shows "sent (the (p_to_workers (final (seed (Some items) be))) ! j) = sent (ws ! j)"
proof (cases "send_seeds items ws")
  case (Inl e)
  with assms(1,2) sent_seeds_other [OF assms(3)] show ?thesis by (simp add: seed_def)
next
  case (Inr ws1)
  with assms(1,2) send_seeds_sent_seeds [OF Inr] sent_seeds_other [OF assms(3)]
  show ?thesis by (simp add: seed_def)
qed

text \<open>The three calls expect no reply; when they return the coordinator is still \<open>ready\<close>.\<close>

lemma send_at_quiet:
  assumes "cmd \<in> {''seed'', ''render'', ''monitor'', ''close''}"
  shows "map outbox (send_at (cmd, d) ws k) = map outbox ws"
proof (cases "k < length ws")
  case True
  with outbox_pipe_send_silent [OF assms, of d "ws ! k"] show ?thesis
    by (simp add: send_at_def map_update list_update_same_conv)
next
  case False
  then show ?thesis by (simp add: send_at_def list_update_beyond)
qed

lemma ready_pipes:
  assumes "ready be" and "p_to_workers be = Some ws" and "map outbox ws' = map outbox ws"
  shows "ready (be\<lparr>p_to_workers := Some ws'\<rparr>)"
proof -
  from assms(3) have l: "length ws' = length ws" using map_eq_imp_length_eq by blast
  have "list_all (\<lambda>w. outbox w = []) ws' = list_all (\<lambda>x. x = []) (map outbox ws')"
    by (simp add: list_all_iff)
  also have "\<dots> = list_all (\<lambda>w. outbox w = []) ws"
    using assms(3) by (simp add: list_all_iff)
  finally show ?thesis using assms(1,2) l
    by (auto simp: ready_def split: option.splits)
qed

lemma sent_seeds_quiet: "map outbox (sent_seeds items ws) = map outbox ws"
proof (induction items arbitrary: ws)
  case Nil
  show ?case by simp
next
  case (Cons it items)
  obtain i s where it: "it = (i, s)" by (cases it)
  show ?case
    using Cons [of "send_at (''seed'', seed_data s) ws (projr (py_index (length ws) i))"] it
      send_at_quiet [of "''seed''" "seed_data s" ws]
    by (cases "py_index (length ws) i") simp_all
qed

lemma send_random_seeds_quiet: "map outbox (fst (send_random_seeds ws g)) = map outbox ws"
proof (induction ws arbitrary: g)
  case Nil
  show ?case by simp
next
  case (Cons w ws)
  obtain r g1 where ri: "randint g = (r, g1)" by (cases "randint g")
  obtain ws' g2 where sr: "send_random_seeds ws g1 = (ws', g2)"
    by (cases "send_random_seeds ws g1")
  with Cons [of g1] have "map outbox ws' = map outbox ws" by simp
  with ri sr show ?case by (simp add: outbox_pipe_send_silent)
qed

lemma foldl_send_at_quiet:
  "cmd \<in> {''seed'', ''render'', ''monitor'', ''close''}
   \<Longrightarrow> map outbox (foldl (send_at (cmd, d)) ws ks) = map outbox ws"
  by (induction ks arbitrary: ws) (simp_all add: send_at_quiet)

lemma fire_and_forget_ready:
  assumes "ready be"
  shows "seed seed_map be = Returns u be' \<Longrightarrow> ready be'"
    and "render env_ids be = Returns u be' \<Longrightarrow> ready be'"
    and "monitor a b c d be = Returns u be' \<Longrightarrow> ready be'"
proof -
  from assms obtain ws where ws: "p_to_workers be = Some ws"
    by (auto simp: ready_def split: option.splits)
  have r: "ready (be\<lparr>p_to_workers := Some ws', np_random := g\<rparr>)"
    if "map outbox ws' = map outbox ws" for ws' g
    using ready_pipes [OF assms ws that] by (simp add: ready_def)
  {
    assume s: "seed seed_map be = Returns u be'"
    show "ready be'"
    proof (cases "seed_map \<noteq> None \<and> seed_map \<noteq> Some []")
      case True
      with s ws obtain ws1 where "send_seeds (the seed_map) ws = Inr ws1"
        and be': "be' = be\<lparr>p_to_workers := Some ws1\<rparr>"
        by (auto simp: seed_def split: sum.splits)
      with send_seeds_sent_seeds [of "the seed_map" ws ws1]
      have "map outbox ws1 = map outbox ws" by (simp add: sent_seeds_quiet)
      from ready_pipes [OF assms ws this] be' show ?thesis by simp
    next
      case False
      obtain ws1 g1 where sr: "send_random_seeds ws (np_random be) = (ws1, g1)"
        by (cases "send_random_seeds ws (np_random be)")
      with send_random_seeds_quiet [of ws "np_random be"]
      have "map outbox ws1 = map outbox ws" by simp
      from r [OF this, of g1] s False ws sr show ?thesis
        by (auto simp: seed_def)
    qed
  }
  {
    assume s: "render env_ids be = Returns u be'"
    then obtain ws1 where be': "be' = be\<lparr>p_to_workers := Some ws1\<rparr>"
      and q: "map outbox ws1 = map outbox ws"
      using ws foldl_send_at_quiet [of "''render''" PyNone ws]
      by (auto simp: render_def outbox_pipe_send_silent comp_def
          split: option.splits list.splits sum.splits)
    from ready_pipes [OF assms ws q] be' show "ready be'" by simp
  }
  {
    assume s: "monitor a b c d be = Returns u be'"
    then obtain ws1 where be': "be' = be\<lparr>p_to_workers := Some ws1\<rparr>"
      and q: "map outbox ws1 = map outbox ws"
      using ws by (auto simp: monitor_def outbox_pipe_send_silent comp_def)
    from ready_pipes [OF assms ws q] be' show "ready be'" by simp
  }
qed

lemma seed_empty_map: "seed (Some []) be = seed None be"
  by (simp add: seed_def)

text \<open>
  Claim C7. The test \<^verbatim>\<open>if seed_map:\<close> is false for an empty dict as it is for \<^verbatim>\<open>None\<close>.
  \<^verbatim>\<open>seed({})\<close> on the pool of the scenario returns after it has sent a seed command with
  a fresh random seed to worker 0 and to worker 1, though the map names neither.
\<close>

theorem seed_empty_map_reseeds_all:
  "map sent (the (p_to_workers (final (seed (Some []) pool2)))) =
     [[(''get_spaces'', PyNone), (''seed'', SeedVal 1002)], [(''seed'', SeedVal 1003)]]
   \<and> is_Returns (seed (Some []) pool2)"
  by (simp add: pool2_value seed_def randint_def rng0_def pipe_send_def serve_def worker_iter_def
      counter_proc_def counter_sim_def)

section \<open>What the info of a step shares with the simulation\<close>

text \<open>
  Claim C10. \<^verbatim>\<open>info.copy()\<close> copies the dict and not what its items refer to. The second
  step of an episode of the logging simulation returns the info
  \<^verbatim>\<open>{'log': [7, 8], 't': 2}\<close>; it yields \<open>done\<close>, so the worker resets the simulation
  between the copy and the send, the reset empties the list that the copy still refers
  to, and the info that is sent is \<^verbatim>\<open>{'log': [], 't': 2}\<close>.
\<close>

theorem info_copy_is_shallow:
  "stepped_info 3 logging_sim (Val (PInt 8)) mem1 =
     Some (WDict [(''log'', WList [WInt 7, WInt 8]), (''t'', WInt 2)])
   \<and> sent_info 3 logging_sim (Val (PInt 8)) mem1 =
     Some (WDict [(''log'', WList []), (''t'', WInt 2)])"
  by (simp add: stepped_info_def sent_info_def mem1_def mem0_def logging_sim_def worker_iter_def
      shallow_copy_def alloc_def eval_nat_numeral)

end
